theory Spec2Isabelle
  imports Complex_Main
begin

section \<open>Errors\<close>

text \<open>
  The exceptions the modelled code can raise: a failed \<^verbatim>\<open>assert\<close>, an index out of
  range (a list index, or an embedding lookup), a tensor \<^verbatim>\<open>view\<close> whose shape does not
  fit the number of elements, a modulus by zero, and a loss whose inputs and targets
  differ in number.
\<close>

datatype error = AssertionError | IndexError | RuntimeError | ZeroDivisionError | ValueError

section \<open>The sharded data loader (train_gpt2.py, class DataLoaderLite)\<close>

text \<open>
  A shard file is the flat list of its token ids; the directory listing, filtered by the
  split and sorted, is the list of the shards' contents. \<^verbatim>\<open>B\<close>, \<^verbatim>\<open>T\<close>, the rank and the
  number of processes are counts, so they are natural numbers here.
\<close>

record DataLoaderLite =
  B :: nat
  T :: nat
  process_rank :: nat
  num_processes :: nat
  shards :: "int list list"
  current_shard :: nat
  tokens :: "int list"
  current_position :: nat

text \<open>
  \<^verbatim>\<open>load_tokens(self.shards[i])\<close>: indexing the list of shards raises out of range. The
  token ids are integers within the range of \<^verbatim>\<open>torch.long\<close>, which the conversion of the
  loaded array keeps as they are.
\<close>

definition load_tokens :: "int list list \<Rightarrow> nat \<Rightarrow> error + int list" where
  "load_tokens shs i = (if i < length shs then Inr (shs ! i) else Inl IndexError)"

text \<open>
  \<^verbatim>\<open>t.view(B, T)\<close> on a one-dimensional tensor: the rows of the row-major reshape; it
  raises when the tensor does not hold exactly \<^verbatim>\<open>B * T\<close> elements.
\<close>

definition view2 :: "'a list \<Rightarrow> nat \<Rightarrow> nat \<Rightarrow> error + 'a list list" where
  "view2 xs b t =
     (if length xs = b * t then Inr (map (\<lambda>i. take t (drop (i * t) xs)) [0..<b])
      else Inl RuntimeError)"

text \<open>Python's slice \<^verbatim>\<open>xs[lo:hi]\<close> for \<^verbatim>\<open>0 <= lo\<close>: it truncates at the end of the list.\<close>

definition slice :: "'a list \<Rightarrow> nat \<Rightarrow> nat \<Rightarrow> 'a list" where
  "slice xs lo hi = take (hi - lo) (drop lo xs)"

definition reset :: "DataLoaderLite \<Rightarrow> error + DataLoaderLite" where
  "reset s =
     (let s1 = s\<lparr>current_shard := 0\<rparr> in
      case load_tokens (shards s1) (current_shard s1) of
        Inl e \<Rightarrow> Inl e
      | Inr toks \<Rightarrow>
          Inr (s1\<lparr>tokens := toks,
                  current_position := B s1 * T s1 * process_rank s1\<rparr>))"

text \<open>
  \<^verbatim>\<open>DataLoaderLite.__init__\<close>, given the shards found for the split: it asserts that
  there is one, loads shard 0, sets the cursor and calls \<^verbatim>\<open>reset\<close>.
\<close>

definition DataLoaderLite_init ::
  "nat \<Rightarrow> nat \<Rightarrow> nat \<Rightarrow> nat \<Rightarrow> int list list \<Rightarrow> error + DataLoaderLite" where
  "DataLoaderLite_init b t rank nprocs shs =
     (if \<not> length shs > 0 then Inl AssertionError
      else case load_tokens shs 0 of
        Inl e \<Rightarrow> Inl e
      | Inr toks \<Rightarrow>
          reset \<lparr>B = b, T = t, process_rank = rank, num_processes = nprocs,
                 shards = shs, current_shard = 0, tokens = toks,
                 current_position = b * t * rank\<rparr>)"

text \<open>
  \<^verbatim>\<open>next_batch\<close> returns the inputs, the targets and the loader as it has been updated.
\<close>

definition next_batch ::
  "DataLoaderLite \<Rightarrow> error + (int list list \<times> int list list \<times> DataLoaderLite)" where
  "next_batch s =
     (let buf = slice (tokens s) (current_position s) (current_position s + B s * T s + 1) in
      case view2 (butlast buf) (B s) (T s) of
        Inl e \<Rightarrow> Inl e
      | Inr x \<Rightarrow>
      (case view2 (tl buf) (B s) (T s) of
        Inl e \<Rightarrow> Inl e
      | Inr y \<Rightarrow>
      (let s1 = s\<lparr>current_position := current_position s + B s * T s * num_processes s\<rparr> in
       if current_position s1 + (B s1 * T s1 * num_processes s1 + 1) > length (tokens s1)
       then
         (if length (shards s1) = 0 then Inl ZeroDivisionError
          else
            (let s2 = s1\<lparr>current_shard := (current_shard s1 + 1) mod length (shards s1)\<rparr> in
             case load_tokens (shards s2) (current_shard s2) of
               Inl e \<Rightarrow> Inl e
             | Inr toks \<Rightarrow>
                 Inr (x, y, s2\<lparr>tokens := toks,
                                current_position := B s2 * T s2 * process_rank s2\<rparr>)))
       else Inr (x, y, s1))))"



text \<open>The loader after \<^verbatim>\<open>n\<close> calls of \<^verbatim>\<open>next_batch\<close>, the batches dropped.\<close>

fun after_batches :: "nat \<Rightarrow> DataLoaderLite \<Rightarrow> error + DataLoaderLite" where
  "after_batches 0 s = Inr s"
| "after_batches (Suc n) s =
     (case next_batch s of
        Inl e \<Rightarrow> Inl e
      | Inr (x, y, s') \<Rightarrow> after_batches n s')"

text \<open>What a caller does with a loader: fetch a batch, or rewind it.\<close>

datatype loader_op = NextBatch | Reset

fun run_ops :: "loader_op list \<Rightarrow> DataLoaderLite \<Rightarrow> error + DataLoaderLite" where
  "run_ops [] s = Inr s"
| "run_ops (NextBatch # ops) s =
     (case next_batch s of
        Inl e \<Rightarrow> Inl e
      | Inr (x, y, s') \<Rightarrow> run_ops ops s')"
| "run_ops (Reset # ops) s =
     (case reset s of
        Inl e \<Rightarrow> Inl e
      | Inr s' \<Rightarrow> run_ops ops s')"

text \<open>The read of a full window: \<^verbatim>\<open>B * T + 1\<close> tokens lie at and after the cursor.\<close>

definition full_window :: "DataLoaderLite \<Rightarrow> bool" where
  "full_window s \<longleftrightarrow> current_position s + B s * T s + 1 \<le> length (tokens s)"

text \<open>
  What every reachable loader state satisfies: the construction parameters are unchanged,
  the tokens in memory are those of the current shard, and a full window lies at the cursor.
\<close>

definition loader_inv :: "nat \<Rightarrow> nat \<Rightarrow> nat \<Rightarrow> nat \<Rightarrow> int list list \<Rightarrow> DataLoaderLite \<Rightarrow> bool" where
  "loader_inv b t r w shs s \<longleftrightarrow>
     B s = b \<and> T s = t \<and> process_rank s = r \<and> num_processes s = w \<and> shards s = shs \<and>
     current_shard s < length shs \<and> tokens s = shs ! current_shard s \<and> full_window s"

text \<open>
  The loader that \<^verbatim>\<open>DataLoaderLite(B=2, T=4, process_rank=0, num_processes=1)\<close> builds
  over a single shard.
\<close>

definition scenario_loader :: "int list \<Rightarrow> DataLoaderLite" where
  "scenario_loader toks =
     \<lparr>B = 2, T = 4, process_rank = 0, num_processes = 1, shards = [toks],
      current_shard = 0, tokens = toks, current_position = 0\<rparr>"

section \<open>The learning-rate schedule (train_gpt2.py, get_lr)\<close>

text \<open>
  The step is a Python integer. Here Python's floats are real numbers and the operations
  are exact; the rounding of double precision is added in the next section.
\<close>

definition max_lr :: real where
  "max_lr = 6 / 10000"





section \<open>The learning-rate schedule in double precision\<close>






section \<open>The transformer (train_gpt2.py, classes MLP, CausalSelfAttention, Block, GPT)\<close>

text \<open>
  Tensors of floats are lists of reals: a vector is one row of channels, a sequence is
  the list of its \<open>T\<close> rows, a batch the list of its sequences. The arithmetic is that of
  the reals. The shapes of the parameters are fixed by the constructors; the operations
  below are the arithmetic that PyTorch performs once its shape checks have passed.
\<close>

type_synonym vec = "real list"
type_synonym mat = "real list list"

definition dot :: "vec \<Rightarrow> vec \<Rightarrow> real" where
  "dot u v = sum_list (map2 (*) u v)"

definition vadd :: "vec \<Rightarrow> vec \<Rightarrow> vec" where
  "vadd u v = map2 (+) u v"

text \<open>\<^verbatim>\<open>nn.Linear\<close>: \<open>y = x W\<^sup>T + b\<close>, the weight holding one row per output feature.\<close>

record Linear =
  weight :: mat
  bias :: "vec option"

definition Linear_forward :: "Linear \<Rightarrow> vec \<Rightarrow> vec" where
  "Linear_forward l x =
     (let y = map (\<lambda>row. dot row x) (weight l)
      in case bias l of None \<Rightarrow> y | Some b \<Rightarrow> vadd y b)"

text \<open>\<^verbatim>\<open>nn.LayerNorm(n_embd)\<close>, over the last dimension, with PyTorch's \<open>eps = 1e-5\<close>.\<close>

record LayerNorm =
  ln_weight :: vec
  ln_bias :: vec

definition mean :: "vec \<Rightarrow> real" where
  "mean x = sum_list x / real (length x)"

definition LayerNorm_forward :: "LayerNorm \<Rightarrow> vec \<Rightarrow> vec" where
  "LayerNorm_forward l x =
     (let mu = mean x;
          var = mean (map (\<lambda>a. (a - mu)\<^sup>2) x);
          xhat = map (\<lambda>a. (a - mu) / sqrt (var + 1 / 100000)) x
      in vadd (map2 (*) xhat (ln_weight l)) (ln_bias l))"

text \<open>\<^verbatim>\<open>nn.GELU(approximate='tanh')\<close>.\<close>

definition gelu :: "real \<Rightarrow> real" where
  "gelu a = 0.5 * a * (1 + tanh (sqrt (2 / pi) * (a + 0.044715 * a ^ 3)))"

record MLP =
  mlp_c_fc :: Linear
  mlp_c_proj :: Linear

definition MLP_forward :: "MLP \<Rightarrow> vec \<Rightarrow> vec" where
  "MLP_forward m x =
     (let x1 = Linear_forward (mlp_c_fc m) x;
          x2 = map gelu x1;
          x3 = Linear_forward (mlp_c_proj m) x2
      in x3)"

text \<open>
  \<^verbatim>\<open>F.scaled_dot_product_attention(q, k, v, is_causal=True)\<close> for one head of one sequence
  (\<open>q\<close>, \<open>k\<close>, \<open>v\<close> hold one row of \<open>hs\<close> channels per position), as the lines it
  replaces in the source spell it out: the scores \<open>q\<^sub>i \<cdot> k\<^sub>j / sqrt hs\<close>, the entries with
  \<open>j > i\<close> filled with \<open>-inf\<close>, a softmax over \<open>j\<close>, and the weighted sum of the rows of
  \<open>v\<close>. The exponential of \<open>-inf\<close> is 0, which is how the masked entries enter here.
\<close>

definition masked_exp :: "vec list \<Rightarrow> vec list \<Rightarrow> nat \<Rightarrow> nat \<Rightarrow> real" where
  "masked_exp q k i j =
     (if j \<le> i then exp (dot (q ! i) (k ! j) * (1 / sqrt (real (length (q ! i))))) else 0)"

definition att :: "vec list \<Rightarrow> vec list \<Rightarrow> nat \<Rightarrow> nat \<Rightarrow> real" where
  "att q k i j = masked_exp q k i j / sum_list (map (masked_exp q k i) [0..<length k])"

definition scaled_dot_product_attention ::
  "nat \<Rightarrow> vec list \<Rightarrow> vec list \<Rightarrow> vec list \<Rightarrow> vec list" where
  "scaled_dot_product_attention hs q k v =
     map (\<lambda>i. map (\<lambda>d. sum_list (map (\<lambda>j. att q k i j * (v ! j ! d)) [0..<length k]))
                [0..<hs])
         [0..<length q]"

text \<open>
  The attention sublayer on one sequence. \<open>C\<close>, the width of the rows of \<open>x\<close>, is
  \<open>n_embd\<close> in every call. The rows of \<open>qkv\<close> are split into three chunks of \<open>n_embd\<close>
  channels; \<^verbatim>\<open>view(B, T, n_head, C // n_head).transpose(1, 2)\<close> gives head \<open>h\<close> the channels
  from \<open>h * (C div n_head)\<close> on, and the transpose back and the final view concatenate the
  heads' outputs.
\<close>

record CausalSelfAttention =
  attn_c_attn :: Linear
  attn_c_proj :: Linear
  attn_n_head :: nat
  attn_n_embd :: nat

definition head :: "nat \<Rightarrow> nat \<Rightarrow> vec list \<Rightarrow> vec list" where
  "head hs h m = map (\<lambda>r. take hs (drop (h * hs) r)) m"

definition CausalSelfAttention_forward :: "CausalSelfAttention \<Rightarrow> vec list \<Rightarrow> vec list" where
  "CausalSelfAttention_forward a x =
     (let C = attn_n_embd a;
          hs = C div attn_n_head a;
          qkv = map (Linear_forward (attn_c_attn a)) x;
          q = map (\<lambda>r. take C r) qkv;
          k = map (\<lambda>r. take C (drop C r)) qkv;
          v = map (\<lambda>r. take C (drop (2 * C) r)) qkv;
          ys = map (\<lambda>h. scaled_dot_product_attention hs (head hs h q) (head hs h k)
                          (head hs h v)) [0..<attn_n_head a];
          y = map (\<lambda>i. concat (map (\<lambda>yh. yh ! i) ys)) [0..<length x]
      in map (Linear_forward (attn_c_proj a)) y)"

record Block =
  ln_1 :: LayerNorm
  attn :: CausalSelfAttention
  ln_2 :: LayerNorm
  mlp :: MLP

definition Block_forward :: "Block \<Rightarrow> vec list \<Rightarrow> vec list" where
  "Block_forward b x =
     (let x1 = map2 vadd x (CausalSelfAttention_forward (attn b) (map (LayerNorm_forward (ln_1 b)) x));
          x2 = map2 vadd x1 (map (\<lambda>r. MLP_forward (mlp b) (LayerNorm_forward (ln_2 b) r)) x1)
      in x2)"

record GPTConfig =
  block_size :: nat
  vocab_size :: nat
  n_layer :: nat
  n_head :: nat
  n_embd :: nat

record GPT =
  config :: GPTConfig
  wte :: mat
  wpe :: mat
  h :: "Block list"
  ln_f :: LayerNorm
  lm_head :: Linear

text \<open>\<^verbatim>\<open>nn.Embedding\<close>: the row of the table at the index; an index outside the table raises.\<close>

definition Embedding_forward :: "mat \<Rightarrow> int \<Rightarrow> error + vec" where
  "Embedding_forward w i =
     (if 0 \<le> i \<and> i < int (length w) then Inr (w ! nat i) else Inl IndexError)"

text \<open>A list of results is the list of the values, or the first error.\<close>

fun collect :: "(error + 'a) list \<Rightarrow> error + 'a list" where
  "collect [] = Inr []"
| "collect (Inl e # rs) = Inl e"
| "collect (Inr a # rs) = (case collect rs of Inl e \<Rightarrow> Inl e | Inr as \<Rightarrow> Inr (a # as))"

text \<open>
  The token ids \<^verbatim>\<open>idx\<close>: a tensor of shape \<open>[dim0, dim1]\<close>, held as its \<open>dim0\<close> rows of
  \<open>dim1\<close> Python integers each.
\<close>

record LongTensor2 =
  dim0 :: nat
  dim1 :: nat
  rows :: "int list list"

definition tensor_ok :: "LongTensor2 \<Rightarrow> bool" where
  "tensor_ok t \<longleftrightarrow> length (rows t) = dim0 t \<and> list_all (\<lambda>r. length r = dim1 t) (rows t)"

text \<open>
  \<^verbatim>\<open>GPT.forward(idx)\<close> without targets, on one sequence of the batch: the position and
  token embeddings, the blocks, the final normalisation and the head.
\<close>

definition GPT_forward_seq :: "GPT \<Rightarrow> int list \<Rightarrow> error + vec list" where
  "GPT_forward_seq g toks =
     (case collect (map (\<lambda>p. Embedding_forward (wpe g) (int p)) [0..<length toks]) of
        Inl e \<Rightarrow> Inl e
      | Inr pos_emb \<Rightarrow>
     (case collect (map (Embedding_forward (wte g)) toks) of
        Inl e \<Rightarrow> Inl e
      | Inr tok_emb \<Rightarrow>
         (let x = map2 vadd tok_emb pos_emb;
              x = fold Block_forward (h g) x;
              x = map (LayerNorm_forward (ln_f g)) x;
              logits = map (Linear_forward (lm_head g)) x
          in Inr logits)))"

definition GPT_forward :: "GPT \<Rightarrow> LongTensor2 \<Rightarrow> error + vec list list" where
  "GPT_forward g idx =
     (if \<not> dim1 idx \<le> block_size (config g) then Inl AssertionError
      else collect (map (GPT_forward_seq g) (rows idx)))"

text \<open>
  The shapes that \<^verbatim>\<open>GPT.__init__\<close> gives the parameters of a model built from a
  configuration, with the constructor's assertion that \<open>n_head\<close> divides \<open>n_embd\<close> and the
  head's weight being the token embedding table (the weight sharing).
\<close>

definition mat_shape :: "nat \<Rightarrow> nat \<Rightarrow> mat \<Rightarrow> bool" where
  "mat_shape r c m \<longleftrightarrow> length m = r \<and> list_all (\<lambda>row. length row = c) m"

definition Linear_shape :: "nat \<Rightarrow> nat \<Rightarrow> Linear \<Rightarrow> bool" where
  "Linear_shape n_in n_out l \<longleftrightarrow>
     mat_shape n_out n_in (weight l) \<and> (case bias l of None \<Rightarrow> False | Some b \<Rightarrow> length b = n_out)"

definition LayerNorm_shape :: "nat \<Rightarrow> LayerNorm \<Rightarrow> bool" where
  "LayerNorm_shape n l \<longleftrightarrow> length (ln_weight l) = n \<and> length (ln_bias l) = n"

definition Block_shape :: "GPTConfig \<Rightarrow> Block \<Rightarrow> bool" where
  "Block_shape c b \<longleftrightarrow>
     LayerNorm_shape (n_embd c) (ln_1 b) \<and>
     Linear_shape (n_embd c) (3 * n_embd c) (attn_c_attn (attn b)) \<and>
     Linear_shape (n_embd c) (n_embd c) (attn_c_proj (attn b)) \<and>
     attn_n_head (attn b) = n_head c \<and>
     attn_n_embd (attn b) = n_embd c \<and>
     LayerNorm_shape (n_embd c) (ln_2 b) \<and>
     Linear_shape (n_embd c) (4 * n_embd c) (mlp_c_fc (mlp b)) \<and>
     Linear_shape (4 * n_embd c) (n_embd c) (mlp_c_proj (mlp b))"

definition GPT_shape :: "GPT \<Rightarrow> bool" where
  "GPT_shape g \<longleftrightarrow>
     n_embd (config g) mod n_head (config g) = 0 \<and>
     mat_shape (vocab_size (config g)) (n_embd (config g)) (wte g) \<and>
     mat_shape (block_size (config g)) (n_embd (config g)) (wpe g) \<and>
     length (h g) = n_layer (config g) \<and>
     list_all (Block_shape (config g)) (h g) \<and>
     LayerNorm_shape (n_embd (config g)) (ln_f g) \<and>
     weight (lm_head g) = wte g \<and>
     bias (lm_head g) = None"

text \<open>
  The logits of a batch have the shape \<open>[b, t, v]\<close>.
\<close>

definition logits_shape :: "nat \<Rightarrow> nat \<Rightarrow> nat \<Rightarrow> vec list list \<Rightarrow> bool" where
  "logits_shape b t v ls \<longleftrightarrow>
     length ls = b \<and> list_all (\<lambda>s. length s = t \<and> list_all (\<lambda>r. length r = v) s) ls"

text \<open>The token ids that index the embedding table of a model.\<close>

definition tokens_in_vocab :: "GPT \<Rightarrow> LongTensor2 \<Rightarrow> bool" where
  "tokens_in_vocab g idx \<longleftrightarrow>
     list_all (list_all (\<lambda>t. 0 \<le> t \<and> t < int (vocab_size (config g)))) (rows idx)"

text \<open>
  A small model, for concrete runs: two tokens, two positions, one block with one head of
  one channel.
\<close>

definition tiny_GPT :: GPT where
  "tiny_GPT =
     \<lparr>config = \<lparr>block_size = 2, vocab_size = 2, n_layer = 1, n_head = 1, n_embd = 1\<rparr>,
      wte = [[1], [2]],
      wpe = [[0], [1]],
      h = [\<lparr>ln_1 = \<lparr>ln_weight = [1], ln_bias = [0]\<rparr>,
            attn = \<lparr>attn_c_attn = \<lparr>weight = [[1], [1], [1]], bias = Some [0, 0, 0]\<rparr>,
                    attn_c_proj = \<lparr>weight = [[1]], bias = Some [0]\<rparr>,
                    attn_n_head = 1, attn_n_embd = 1\<rparr>,
            ln_2 = \<lparr>ln_weight = [1], ln_bias = [0]\<rparr>,
            mlp = \<lparr>mlp_c_fc = \<lparr>weight = [[1], [1], [1], [1]], bias = Some [0, 0, 0, 0]\<rparr>,
                   mlp_c_proj = \<lparr>weight = [[1, 1, 1, 1]], bias = Some [0]\<rparr>\<rparr>\<rparr>],
      ln_f = \<lparr>ln_weight = [1], ln_bias = [0]\<rparr>,
      lm_head = \<lparr>weight = [[1], [2]], bias = None\<rparr>\<rparr>"

section \<open>Construction and initialisation of the modules (GPT.__init__, GPT._init_weights)\<close>

text \<open>
  The constructors build a tree of modules. A linear layer is described by whether it has
  a bias and whether the attribute \<^verbatim>\<open>NANOGPT_SCALE_INIT\<close> has been set on it; the children
  of a module are named, those of a \<^verbatim>\<open>ModuleList\<close> by their index.
\<close>

datatype nn_module =
    Linear_m (has_bias: bool) (has_NANOGPT_SCALE_INIT: bool)
  | Embedding_m
  | LayerNorm_m
  | GELU_m
  | ModuleDict "(string \<times> nn_module) list"
  | ModuleList "nn_module list"

definition MLP_init :: "GPTConfig \<Rightarrow> nn_module" where
  "MLP_init c =
     ModuleDict [(''c_fc'', Linear_m True False),
                 (''gelu'', GELU_m),
                 (''c_proj'', Linear_m True False)]"

text \<open>
  \<^verbatim>\<open>CausalSelfAttention.__init__\<close>: the assertion evaluates \<^verbatim>\<open>config.n_embd % config.n_head\<close>,
  which raises for \<^verbatim>\<open>n_head = 0\<close> before the comparison is made.
\<close>

definition CausalSelfAttention_init :: "GPTConfig \<Rightarrow> error + nn_module" where
  "CausalSelfAttention_init c =
     (if n_head c = 0 then Inl ZeroDivisionError
      else if \<not> n_embd c mod n_head c = 0 then Inl AssertionError
      else Inr (ModuleDict [(''c_attn'', Linear_m True False),
                            (''c_proj'', Linear_m True True)]))"

definition Block_init :: "GPTConfig \<Rightarrow> error + nn_module" where
  "Block_init c =
     (case CausalSelfAttention_init c of
        Inl e \<Rightarrow> Inl e
      | Inr a \<Rightarrow>
          Inr (ModuleDict [(''ln_1'', LayerNorm_m),
                           (''attn'', a),
                           (''ln_2'', LayerNorm_m),
                           (''mlp'', MLP_init c)]))"

text \<open>
  The modules of \<^verbatim>\<open>GPT.__init__\<close> before \<^verbatim>\<open>self.apply(self._init_weights)\<close>. (The sharing of
  the token embedding's weight with the head's does not change which modules there are.)
\<close>

definition GPT_modules :: "GPTConfig \<Rightarrow> error + nn_module" where
  "GPT_modules c =
     (case collect (map (\<lambda>_. Block_init c) [0..<n_layer c]) of
        Inl e \<Rightarrow> Inl e
      | Inr blocks \<Rightarrow>
          Inr (ModuleDict
                 [(''transformer'',
                     ModuleDict [(''wte'', Embedding_m),
                                 (''wpe'', Embedding_m),
                                 (''h'', ModuleList blocks),
                                 (''ln_f'', LayerNorm_m)]),
                  (''lm_head'', Linear_m False False)]))"

text \<open>
  What an initialiser does to a parameter: it draws it from a normal distribution with a
  mean and a standard deviation, or fills it with zeros.
\<close>

datatype init = Normal (mean_of: real) (std_of: real) | Zeros

text \<open>
  \<^verbatim>\<open>_init_weights(module)\<close>: the parameters of the module it initialises, by name, and how.
\<close>

fun init_weights :: "GPTConfig \<Rightarrow> nn_module \<Rightarrow> (string \<times> init) list" where
  "init_weights c (Linear_m b tagged) =
     (let std = 0.02;
          std = (if tagged then std * (2 * real (n_layer c)) powr (- 0.5) else std)
      in (''weight'', Normal 0.0 std) # (if b then [(''bias'', Zeros)] else []))"
| "init_weights c Embedding_m = [(''weight'', Normal 0.0 0.02)]"
| "init_weights c m = []"

text \<open>A step from a module to one of its children.\<close>

datatype key = Name string | Index nat

text \<open>The child of a module under a key, and the module at the end of a path.\<close>

fun child :: "nn_module \<Rightarrow> key \<Rightarrow> nn_module option" where
  "child (ModuleDict ms) (Name n) = map_of ms n"
| "child (ModuleList ms) (Index i) = (if i < length ms then Some (ms ! i) else None)"
| "child m k = None"

fun submodule :: "nn_module \<Rightarrow> key list \<Rightarrow> nn_module option" where
  "submodule m [] = Some m"
| "submodule m (k # ks) = (case child m k of None \<Rightarrow> None | Some m' \<Rightarrow> submodule m' ks)"

text \<open>
  \<^verbatim>\<open>self.apply(self._init_weights)\<close> calls \<^verbatim>\<open>_init_weights\<close> once on every module of the tree,
  so a parameter of the module at a path is initialised as \<^verbatim>\<open>_init_weights\<close> of that module
  says.
\<close>

definition param_init :: "GPTConfig \<Rightarrow> key list \<Rightarrow> string \<Rightarrow> init option" where
  "param_init c path pname =
     (case GPT_modules c of
        Inl e \<Rightarrow> None
      | Inr g \<Rightarrow>
          (case submodule g path of
             None \<Rightarrow> None
           | Some m \<Rightarrow> map_of (init_weights c m) pname))"

text \<open>\<^verbatim>\<open>GPTConfig()\<close> with the defaults of the dataclass.\<close>

definition GPTConfig_default :: GPTConfig where
  "GPTConfig_default =
     \<lparr>block_size = 1024, vocab_size = 50257, n_layer = 12, n_head = 12, n_embd = 768\<rparr>"

section \<open>Parameters as shared objects (GPT.__init__, the weight sharing)\<close>

text \<open>
  A parameter is an object with a value and a gradient; a module attribute such as
  \<^verbatim>\<open>lm_head.weight\<close> holds a reference to one. The heap maps references to values and to
  accumulated gradients (\<open>None\<close> where \<^verbatim>\<open>.grad\<close> is \<^verbatim>\<open>None\<close>). A tensor is the flat list of
  its real entries.
\<close>

type_synonym addr = nat
type_synonym tensor = "real list"

record heap =
  next_addr :: addr
  data :: "addr \<rightharpoonup> tensor"
  grad :: "addr \<rightharpoonup> tensor"

text \<open>The constructor of a module creates a new parameter object for each of its tensors.\<close>

definition new_param :: "tensor \<Rightarrow> heap \<Rightarrow> addr \<times> heap" where
  "new_param v hp =
     (next_addr hp,
      hp\<lparr>next_addr := Suc (next_addr hp),
         data := (data hp)(next_addr hp \<mapsto> v),
         grad := (grad hp)(next_addr hp := None)\<rparr>)"

fun new_params :: "tensor list \<Rightarrow> heap \<Rightarrow> addr list \<times> heap" where
  "new_params [] hp = ([], hp)"
| "new_params (v # vs) hp =
     (let (a, hp1) = new_param v hp;
          (as, hp2) = new_params vs hp1
      in (a # as, hp2))"

text \<open>
  The references that the attributes of a \<^verbatim>\<open>GPT\<close> object hold: the token and position
  embedding tables, the parameters of the blocks and of the final normalisation, and the
  weight of the head.
\<close>

record GPT_refs =
  wte_weight :: addr
  wpe_weight :: addr
  h_params :: "addr list"
  ln_f_params :: "addr list"
  lm_head_weight :: addr

text \<open>
  \<^verbatim>\<open>GPT.__init__\<close>: the modules are constructed in the order \<^verbatim>\<open>wte\<close>, \<^verbatim>\<open>wpe\<close>, \<^verbatim>\<open>h\<close>,
  \<^verbatim>\<open>ln_f\<close>, \<^verbatim>\<open>lm_head\<close>, each with parameters of its own; then
  \<^verbatim>\<open>self.transformer.wte.weight = self.lm_head.weight\<close> makes the attribute of the embedding
  refer to the head's parameter.
\<close>

definition GPT_init_refs ::
  "tensor \<Rightarrow> tensor \<Rightarrow> tensor list \<Rightarrow> tensor list \<Rightarrow> tensor \<Rightarrow> heap \<Rightarrow> GPT_refs \<times> heap" where
  "GPT_init_refs wte0 wpe0 hs0 ln0 head0 hp =
     (let (a_wte, hp1) = new_param wte0 hp;
          (a_wpe, hp2) = new_param wpe0 hp1;
          (a_h, hp3) = new_params hs0 hp2;
          (a_ln, hp4) = new_params ln0 hp3;
          (a_head, hp5) = new_param head0 hp4;
          m = \<lparr>wte_weight = a_wte, wpe_weight = a_wpe, h_params = a_h, ln_f_params = a_ln,
               lm_head_weight = a_head\<rparr>;
          m = m\<lparr>wte_weight := lm_head_weight m\<rparr>
      in (m, hp5))"

text \<open>
  \<^verbatim>\<open>named_parameters()\<close> yields every parameter object once, under the first name that
  reaches it.
\<close>

fun first_occurrences :: "addr list \<Rightarrow> addr list" where
  "first_occurrences [] = []"
| "first_occurrences (a # as) = a # first_occurrences (filter (\<lambda>b. b \<noteq> a) as)"

definition parameters :: "GPT_refs \<Rightarrow> addr list" where
  "parameters m =
     first_occurrences
       ([wte_weight m, wpe_weight m] @ h_params m @ ln_f_params m @ [lm_head_weight m])"

text \<open>
  The backward pass adds, for every use of a parameter in the forward pass, the gradient
  contribution of that use to the \<^verbatim>\<open>.grad\<close> of the parameter object (it sets it where it
  is \<^verbatim>\<open>None\<close>).
\<close>

definition accumulate :: "addr \<Rightarrow> tensor \<Rightarrow> heap \<Rightarrow> heap" where
  "accumulate a g hp =
     hp\<lparr>grad := (grad hp)(a \<mapsto> (case grad hp a of None \<Rightarrow> g | Some g0 \<Rightarrow> vadd g0 g))\<rparr>"

text \<open>
  The \<^verbatim>\<open>.grad\<close> of the parameter \<open>a\<close> after a list of contributions, given by reference, has
  been accumulated in order.
\<close>

definition received :: "(addr \<times> tensor) list \<Rightarrow> addr \<Rightarrow> tensor option \<Rightarrow> tensor option" where
  "received cs a G =
     fold (\<lambda>(b, g) G'. if b = a then Some (case G' of None \<Rightarrow> g | Some g0 \<Rightarrow> vadd g0 g) else G')
       cs G"

text \<open>The \<^verbatim>\<open>.grad\<close> of a parameter after a list of gradients has been added to it in order.\<close>

definition accumulated :: "tensor list \<Rightarrow> tensor option \<Rightarrow> tensor option" where
  "accumulated gs G =
     fold (\<lambda>g G'. Some (case G' of None \<Rightarrow> g | Some g0 \<Rightarrow> vadd g0 g)) gs G"

text \<open>
  The steps of training that touch the parameters. \<^verbatim>\<open>optimizer.zero_grad()\<close> sets every
  gradient to \<^verbatim>\<open>None\<close>. A backward pass is given by the contributions of the uses: that of
  the head (\<^verbatim>\<open>lm_head(x)\<close>, the last use in the forward pass and the first reached going
  backward), that of the token embedding (\<^verbatim>\<open>wte(idx)\<close>), and those of the other
  parameters, by reference. \<^verbatim>\<open>optimizer.step()\<close> replaces the value of every parameter that
  has a gradient, once, by a function of the parameter, its value and its gradient.
\<close>

datatype train_op =
    ZeroGrad
  | Backward tensor tensor "(addr \<times> tensor) list"
  | OptimizerStep "addr \<Rightarrow> tensor \<Rightarrow> tensor \<Rightarrow> tensor"

definition step_param :: "(addr \<Rightarrow> tensor \<Rightarrow> tensor \<Rightarrow> tensor) \<Rightarrow> addr \<Rightarrow> heap \<Rightarrow> heap" where
  "step_param upd a hp =
     (case (data hp a, grad hp a) of
        (Some v, Some g) \<Rightarrow> hp\<lparr>data := (data hp)(a \<mapsto> upd a v g)\<rparr>
      | _ \<Rightarrow> hp)"

fun run_op :: "GPT_refs \<Rightarrow> train_op \<Rightarrow> heap \<Rightarrow> heap" where
  "run_op m ZeroGrad hp = fold (\<lambda>a hp'. hp'\<lparr>grad := (grad hp')(a := None)\<rparr>) (parameters m) hp"
| "run_op m (Backward g_head g_emb others) hp =
     fold (\<lambda>(a, g). accumulate a g) others
       (accumulate (wte_weight m) g_emb (accumulate (lm_head_weight m) g_head hp))"
| "run_op m (OptimizerStep upd) hp = fold (step_param upd) (parameters m) hp"

definition run_train :: "GPT_refs \<Rightarrow> train_op list \<Rightarrow> heap \<Rightarrow> heap" where
  "run_train m ops hp = fold (run_op m) ops hp"

text \<open>A heap with no parameter in it.\<close>

definition empty_heap :: heap where
  "empty_heap = \<lparr>next_addr = 0, data = Map.empty, grad = Map.empty\<rparr>"

section \<open>Distributed setup and the training step's communication (train_gpt2.py, the script)\<close>

text \<open>
  The module objects of the script: the \<^verbatim>\<open>GPT\<close> instance, the module that \<^verbatim>\<open>torch.compile\<close>
  returns for a module, and the \<^verbatim>\<open>DistributedDataParallel\<close> wrapper of a module.
\<close>

datatype module_obj = GPT_module | Compiled module_obj | DDP module_obj

text \<open>
  The collectives a worker takes part in: the broadcast of the module's state when a
  \<^verbatim>\<open>DistributedDataParallel\<close> wrapper is constructed, the average of the gradients across the
  workers, and \<^verbatim>\<open>dist.all_reduce(loss_accum, op=dist.ReduceOp.AVG)\<close>.
\<close>

datatype collective = BroadcastState | AllReduceGradients | AllReduceLoss

text \<open>
  The variables \<^verbatim>\<open>model\<close> and \<^verbatim>\<open>raw_model\<close>, the attribute
  \<^verbatim>\<open>model.require_backward_grad_sync\<close> (\<^verbatim>\<open>True\<close>, the default of a wrapper, until the script
  assigns it), and the collectives issued so far.
\<close>

record script =
  model :: module_obj
  raw_model :: module_obj
  require_backward_grad_sync :: bool
  issued :: "collective list"

text \<open>
  Lines 267 to 273. With \<^verbatim>\<open>ddp\<close> set, the script evaluates \<^verbatim>\<open>DDP(model, device_ids=...)\<close>
  as an expression statement: the wrapper is constructed and not bound to any variable,
  so \<^verbatim>\<open>model\<close> is still the compiled module, and \<^verbatim>\<open>raw_model\<close> is \<^verbatim>\<open>model\<close>.
\<close>

definition DDP_construct :: "module_obj \<Rightarrow> module_obj \<times> collective list" where
  "DDP_construct m = (DDP m, [BroadcastState])"

definition script_setup :: "bool \<Rightarrow> script" where
  "script_setup ddp =
     (let model0 = Compiled GPT_module;
          sent = (if ddp then snd (DDP_construct model0) else []);
          raw = model0
      in \<lparr>model = model0, raw_model = raw, require_backward_grad_sync = True, issued = sent\<rparr>)"

text \<open>
  \<^verbatim>\<open>loss.backward()\<close> for a loss computed by calling a module. A
  \<^verbatim>\<open>DistributedDataParallel\<close> wrapper reads its \<^verbatim>\<open>require_backward_grad_sync\<close> in its forward
  pass, where it prepares the reduction, and averages the gradients across the workers
  during the backward pass of a loss whose forward pass found the attribute set; on any
  other module the attribute of that name means nothing and the backward pass
  communicates nothing.
\<close>

fun loss_backward :: "module_obj \<Rightarrow> bool \<Rightarrow> collective list" where
  "loss_backward (DDP m) sync_at_forward =
     (if sync_at_forward then [AllReduceGradients] else [])"
| "loss_backward m sync_at_forward = []"

text \<open>
  One micro-step of lines 340 to 350: the forward pass of line 344 calls \<^verbatim>\<open>model\<close>, which
  is where a wrapper reads the attribute; with \<^verbatim>\<open>ddp\<close> set, line 349 then assigns
  \<^verbatim>\<open>model.require_backward_grad_sync\<close>, for the forward passes that follow; then
  \<^verbatim>\<open>loss.backward()\<close>.
\<close>

definition micro_step :: "bool \<Rightarrow> nat \<Rightarrow> nat \<Rightarrow> script \<Rightarrow> script" where
  "micro_step ddp grad_accum_steps i s =
     (let sync_at_forward = require_backward_grad_sync s;
          s = (if ddp
               then s\<lparr>require_backward_grad_sync := (int i = int grad_accum_steps - 1)\<rparr>
               else s)
      in s\<lparr>issued := issued s @ loss_backward (model s) sync_at_forward\<rparr>)"

text \<open>
  Lines 337 to 357: the micro-steps of one accumulation window, then the average of the
  logged loss; the optimizer, built by \<^verbatim>\<open>raw_model.configure_optimizers\<close>, then updates the
  parameters of \<^verbatim>\<open>raw_model\<close>.
\<close>

definition training_step :: "bool \<Rightarrow> nat \<Rightarrow> script \<Rightarrow> script" where
  "training_step ddp grad_accum_steps s =
     (let s = fold (micro_step ddp grad_accum_steps) [0..<grad_accum_steps] s
      in s\<lparr>issued := issued s @ (if ddp then [AllReduceLoss] else [])\<rparr>)"

section \<open>The loss and the accumulation window (GPT.forward with targets, lines 337 to 357)\<close>

text \<open>
  \<^verbatim>\<open>F.cross_entropy(input, target)\<close> with its defaults, on \<open>N\<close> rows of logits and \<open>N\<close>
  targets: the negative log-softmax of each row at its target, averaged over the rows
  whose target is not the \<^verbatim>\<open>ignore_index\<close>, \<open>-100\<close>. It raises when the numbers of rows and
  targets differ, and when a target that is not ignored is not a class. (When every target
  is ignored PyTorch returns \<^verbatim>\<open>nan\<close>, the quotient of two zeros; the reals have no such
  value and the quotient is 0 here. The targets of a micro-batch are token ids, of which
  none is ignored.)
\<close>

definition nll :: "vec \<Rightarrow> int \<Rightarrow> real" where
  "nll x t = ln (sum_list (map exp x)) - x ! nat t"

definition bad_target :: "vec \<times> int \<Rightarrow> bool" where
  "bad_target = (\<lambda>(x, t). t \<noteq> - 100 \<and> \<not> (0 \<le> t \<and> t < int (length x)))"

definition mean_nll :: "(vec \<times> int) list \<Rightarrow> error + real" where
  "mean_nll ps =
     (if list_ex bad_target ps then Inl IndexError
      else
        (let kept = filter (\<lambda>(x, t). t \<noteq> - 100) ps
         in Inr (sum_list (map (\<lambda>(x, t). nll x t) kept) / real (length kept))))"

definition cross_entropy :: "vec list \<Rightarrow> int list \<Rightarrow> error + real" where
  "cross_entropy input target =
     (if length input \<noteq> length target then Inl ValueError
      else mean_nll (zip input target))"

text \<open>
  \<^verbatim>\<open>GPT.forward(idx, targets)\<close>: the logits, and the loss over
  \<^verbatim>\<open>logits.view(-1, logits.size(-1))\<close> and \<^verbatim>\<open>targets.view(-1)\<close>.
\<close>

definition GPT_forward_loss ::
  "GPT \<Rightarrow> LongTensor2 \<Rightarrow> LongTensor2 \<Rightarrow> error + (vec list list \<times> real)" where
  "GPT_forward_loss g idx targets =
     (case GPT_forward g idx of
        Inl e \<Rightarrow> Inl e
      | Inr logits \<Rightarrow>
          (case cross_entropy (concat logits) (concat (rows targets)) of
             Inl e \<Rightarrow> Inl e
           | Inr loss \<Rightarrow> Inr (logits, loss)))"

text \<open>
  The micro-batches of a window stacked into one batch (\<^verbatim>\<open>torch.cat\<close> along dimension 0
  of tensors with the same \<open>dim1\<close>).
\<close>

definition cat0 :: "LongTensor2 list \<Rightarrow> LongTensor2" where
  "cat0 ts =
     \<lparr>dim0 = sum_list (map dim0 ts), dim1 = dim1 (hd ts), rows = concat (map rows ts)\<rparr>"

text \<open>
  A micro-batch as the loader yields it: inputs and targets of shape \<open>[b, t]\<close>, the targets
  token ids (not negative).
\<close>

definition micro_batch_ok :: "nat \<Rightarrow> nat \<Rightarrow> LongTensor2 \<times> LongTensor2 \<Rightarrow> bool" where
  "micro_batch_ok b t = (\<lambda>(x, y).
     tensor_ok x \<and> dim0 x = b \<and> dim1 x = t \<and>
     tensor_ok y \<and> dim0 y = b \<and> dim1 y = t \<and>
     list_all (list_all (\<lambda>tok. 0 \<le> tok)) (rows y))"

text \<open>
  The scalar whose backward pass micro-step \<open>j\<close> of a window of \<open>grad_accum_steps\<close>
  micro-steps runs: \<^verbatim>\<open>loss / grad_accum_steps\<close>.
\<close>

definition micro_loss :: "nat \<Rightarrow> real \<Rightarrow> real" where
  "micro_loss grad_accum_steps loss = loss / real grad_accum_steps"

text \<open>The loss that a forward pass returned (0 where it raised).\<close>

definition loss_value :: "error + (vec list list \<times> real) \<Rightarrow> real" where
  "loss_value r = (case r of Inl e \<Rightarrow> 0 | Inr (logits, loss) \<Rightarrow> loss)"

text \<open>
  What \<^verbatim>\<open>loss.backward()\<close> is for a scalar \<open>f\<close> of the parameter values: a backward pass that,
  run on cleared gradients, leaves in the \<^verbatim>\<open>.grad\<close> of every parameter the gradient of \<open>f\<close>
  with respect to that parameter at the current values, entry by entry the derivative of
  \<open>f\<close> in that entry.
\<close>

definition backward_of ::
  "GPT_refs \<Rightarrow> heap \<Rightarrow> ((addr \<rightharpoonup> tensor) \<Rightarrow> real) \<Rightarrow> train_op \<Rightarrow> bool" where
  "backward_of m hp f bw \<longleftrightarrow>
     (\<exists>g_head g_emb others. bw = Backward g_head g_emb others) \<and>
     (\<forall>a\<in>set (parameters m). \<exists>v g.
        data hp a = Some v \<and>
        grad (run_op m bw (run_op m ZeroGrad hp)) a = Some g \<and>
        length g = length v \<and>
        (\<forall>i<length v.
           ((\<lambda>s. f ((data hp)(a \<mapsto> v[i := s]))) has_real_derivative g ! i) (at (v ! i))))"

text \<open>
  \<^verbatim>\<open>torch.nn.utils.clip_grad_norm_(model.parameters(), max_norm)\<close>: the norm of all the
  gradients together, and every gradient scaled by \<open>max_norm / (norm + 1e-6)\<close> where that
  is below 1.
\<close>

definition total_norm :: "GPT_refs \<Rightarrow> heap \<Rightarrow> real" where
  "total_norm m hp =
     sqrt (sum_list (map (\<lambda>a. case grad hp a of
                                 None \<Rightarrow> 0
                               | Some g \<Rightarrow> sum_list (map (\<lambda>x. x\<^sup>2) g)) (parameters m)))"

definition clip_grad_norm :: "GPT_refs \<Rightarrow> real \<Rightarrow> heap \<Rightarrow> heap" where
  "clip_grad_norm m max_norm hp =
     (let clip_coef = max_norm / (total_norm m hp + 1 / 1000000);
          clip_coef_clamped = min clip_coef 1
      in hp\<lparr>grad := (\<lambda>a. if a \<in> set (parameters m)
                           then map_option (map (\<lambda>x. x * clip_coef_clamped)) (grad hp a)
                           else grad hp a)\<rparr>)"

text \<open>
  Lines 338 to 357, the update of one training step: \<^verbatim>\<open>optimizer.zero_grad()\<close>, the backward
  passes of the micro-steps in order, \<^verbatim>\<open>clip_grad_norm_\<close> with \<^verbatim>\<open>max_norm=1.0\<close>, and one
  \<^verbatim>\<open>optimizer.step()\<close>, whose rule (AdamW at the learning rate of the step) is \<open>upd\<close>.
\<close>

definition train_window ::
  "GPT_refs \<Rightarrow> (addr \<Rightarrow> tensor \<Rightarrow> tensor \<Rightarrow> tensor) \<Rightarrow> train_op list \<Rightarrow> heap \<Rightarrow> heap" where
  "train_window m upd backwards hp =
     run_op m (OptimizerStep upd)
       (clip_grad_norm m 1.0 (run_train m (ZeroGrad # backwards) hp))"

section \<open>A small model on the heap, for concrete runs of the training step\<close>

text \<open>
  Entry \<open>i\<close> of the parameter at a reference, read from parameter values (0 where there is
  none).
\<close>

definition entry :: "(addr \<rightharpoonup> tensor) \<Rightarrow> addr \<Rightarrow> nat \<Rightarrow> real" where
  "entry d a i = (case d a of None \<Rightarrow> 0 | Some v \<Rightarrow> if i < length v then v ! i else 0)"

text \<open>
  A model without blocks, with two tokens, one position and one channel, built by
  \<^verbatim>\<open>GPT.__init__\<close> on the empty heap: the token embedding \<open>[[0], [1]]\<close>, which is the head's
  weight, the position embedding \<open>[[0]]\<close>, and the weight \<open>[1]\<close> and bias \<open>[1]\<close> of \<^verbatim>\<open>ln_f\<close>.
\<close>

definition small_init :: "GPT_refs \<times> heap" where
  "small_init = GPT_init_refs [0, 1] [0] [] [[1], [1]] [0, 1] empty_heap"

text \<open>The model that the parameter values \<open>d\<close> give to these references.\<close>

definition small_GPT :: "(addr \<rightharpoonup> tensor) \<Rightarrow> GPT" where
  "small_GPT d =
     (let m = fst small_init in
      \<lparr>config = \<lparr>block_size = 1, vocab_size = 2, n_layer = 0, n_head = 1, n_embd = 1\<rparr>,
       wte = [[entry d (wte_weight m) 0], [entry d (wte_weight m) 1]],
       wpe = [[entry d (wpe_weight m) 0]],
       h = [],
       ln_f = \<lparr>ln_weight = [entry d (ln_f_params m ! 0) 0],
               ln_bias = [entry d (ln_f_params m ! 1) 0]\<rparr>,
       lm_head = \<lparr>weight = [[entry d (lm_head_weight m) 0], [entry d (lm_head_weight m) 1]],
                  bias = None\<rparr>\<rparr>)"

text \<open>A batch of one sequence of one token.\<close>

definition token :: "int \<Rightarrow> LongTensor2" where
  "token t = \<lparr>dim0 = 1, dim1 = 1, rows = [[t]]\<rparr>"

text \<open>
  On this model the logits of any token are \<open>[w\<^sub>0 * \<beta>, w\<^sub>1 * \<beta>]\<close>, for the head's weight
  \<open>[[w\<^sub>0], [w\<^sub>1]]\<close> and the bias \<open>\<beta>\<close> of \<^verbatim>\<open>ln_f\<close> (the normalisation of a single channel is
  0), and the loss with target \<open>y\<close> is \<open>ln (exp (w\<^sub>0 * \<beta>) + exp (w\<^sub>1 * \<beta>)) - w\<^sub>y * \<beta>\<close>. The
  backward pass of \<open>p\<close> times the loss with target 1 plus \<open>q\<close> times the loss with target 0,
  at the initial values: the head's use contributes the gradient of the weight, the
  embedding's use zeros, and the other parameters receive theirs.
\<close>

definition small_backward :: "real \<Rightarrow> real \<Rightarrow> train_op" where
  "small_backward p q =
     (let m = fst small_init
      in Backward [(p + q) / (1 + exp 1) - q, (p + q) * exp 1 / (1 + exp 1) - p] [0, 0]
           [(wpe_weight m, [0]), (ln_f_params m ! 0, [0]),
            (ln_f_params m ! 1, [(p + q) * exp 1 / (1 + exp 1) - p])])"


section \<open>Properties of the data loader\<close>

lemma concat_view_rows:
  "length xs = b * t \<Longrightarrow> concat (map (\<lambda>i. take t (drop (i * t) xs)) [0..<b]) = xs"
proof (induction b arbitrary: xs rule: nat.induct)
  case zero
  then show ?case by simp
next
  case (Suc b)
  have len: "length (take (b * t) xs) = b * t"
    using Suc.prems by simp
  have rows: "map (\<lambda>i. take t (drop (i * t) xs)) [0..<b]
      = map (\<lambda>i. take t (drop (i * t) (take (b * t) xs))) [0..<b]"
  proof (rule map_cong[OF refl])
    fix i assume "i \<in> set [0..<b]"
    then have "i < b" by simp
    then have "Suc i \<le> b" by simp
    then have "Suc i * t \<le> b * t" by (rule mult_le_mono1)
    then have le: "i * t + t \<le> b * t" by (simp add: add.commute)
    have "drop (i * t) (take (b * t) xs) = take (b * t - i * t) (drop (i * t) xs)"
      by (simp add: drop_take)
    moreover have "t \<le> b * t - i * t" using le by simp
    ultimately show "take t (drop (i * t) xs) = take t (drop (i * t) (take (b * t) xs))"
      by (simp add: min_def)
  qed
  have last_row: "take t (drop (b * t) xs) = drop (b * t) xs"
    using Suc.prems by simp
  have "concat (map (\<lambda>i. take t (drop (i * t) xs)) [0..<Suc b])
      = concat (map (\<lambda>i. take t (drop (i * t) xs)) [0..<b]) @ take t (drop (b * t) xs)"
    by simp
  also have "\<dots> = take (b * t) xs @ drop (b * t) xs"
    unfolding rows Suc.IH[OF len] last_row ..
  finally show ?case by simp
qed

lemma rank_window:
  assumes "r < w" "b * t * w + 1 \<le> n"
  shows "b * t * r + b * t + 1 \<le> (n::nat)"
proof -
  have "Suc r \<le> w" using assms(1) by simp
  then have "b * t * Suc r \<le> b * t * w" by (rule mult_le_mono2)
  then show ?thesis using assms(2) by simp
qed

lemma view2_ok: "length xs = b * t \<Longrightarrow> \<exists>rows. view2 xs b t = Inr rows \<and> length rows = b \<and> concat rows = xs"
  by (simp add: view2_def concat_view_rows)

lemma reset_inv:
  assumes "r < w" "shs \<noteq> []" "\<forall>sh\<in>set shs. b * t * w + 1 \<le> length sh"
    and "loader_inv b t r w shs s"
  shows "\<exists>s'. reset s = Inr s' \<and> loader_inv b t r w shs s'"
proof -
  have "hd shs \<in> set shs" using assms(2) by simp
  then have "b * t * w + 1 \<le> length (shs ! 0)" using assms(2,3) by (simp add: hd_conv_nth)
  then have "b * t * r + b * t + 1 \<le> length (shs ! 0)" using assms(1) by (rule rank_window[rotated])
  then show ?thesis using assms(2,4)
    by (simp add: reset_def load_tokens_def loader_inv_def full_window_def)
qed

lemma buf_views:
  assumes "full_window s"
  defines "buf \<equiv> slice (tokens s) (current_position s) (current_position s + B s * T s + 1)"
  shows "view2 (butlast buf) (B s) (T s) =
           Inr (map (\<lambda>i. take (T s) (drop (i * T s) (butlast buf))) [0..<B s])"
    and "view2 (tl buf) (B s) (T s) =
           Inr (map (\<lambda>i. take (T s) (drop (i * T s) (tl buf))) [0..<B s])"
    and "length buf = B s * T s + 1"
proof -
  show len: "length buf = B s * T s + 1"
    using assms(1) by (simp add: buf_def slice_def full_window_def)
  show "view2 (butlast buf) (B s) (T s) =
           Inr (map (\<lambda>i. take (T s) (drop (i * T s) (butlast buf))) [0..<B s])"
    using len by (simp add: view2_def)
  show "view2 (tl buf) (B s) (T s) =
           Inr (map (\<lambda>i. take (T s) (drop (i * T s) (tl buf))) [0..<B s])"
    using len by (simp add: view2_def)
qed

lemma next_batch_inv:
  assumes "r < w" "shs \<noteq> []" "\<forall>sh\<in>set shs. b * t * w + 1 \<le> length sh"
    and inv: "loader_inv b t r w shs s"
  shows "\<exists>x y s'. next_batch s = Inr (x, y, s') \<and> loader_inv b t r w shs s'"
proof -
  have fw: "full_window s" using inv by (simp add: loader_inv_def)
  let ?i = "Suc (current_shard s) mod length shs"
  have i: "?i < length shs" using assms(2) by simp
  then have "shs ! ?i \<in> set shs" by simp
  then have "b * t * w + 1 \<le> length (shs ! ?i)" using assms(3) by blast
  then have wrap: "b * t * r + b * t + 1 \<le> length (shs ! ?i)"
    using assms(1) by (rule rank_window[rotated])
  have "1 \<le> w" using assms(1) by simp
  then have "b * t * 1 \<le> b * t * w" by (rule mult_le_mono2)
  then have "b * t \<le> b * t * w" by simp
  then obtain k where bt: "b * t * w = b * t + k" using le_Suc_ex by blast
  have fields: "B s = b" "T s = t" "process_rank s = r" "num_processes s = w" "shards s = shs"
    "current_shard s < length shs" "tokens s = shs ! current_shard s"
    using inv by (simp_all add: loader_inv_def)
  have pos: "current_position s + b * t + 1 \<le> length (shs ! current_shard s)"
    using fw fields by (simp add: full_window_def)
  show ?thesis
    unfolding next_batch_def Let_def buf_views[OF fw]
    using fields pos i wrap bt assms(2)
    by (simp add: load_tokens_def loader_inv_def full_window_def)
qed

lemma init_inv:
  assumes "r < w" "\<forall>sh\<in>set shs. b * t * w + 1 \<le> length sh"
    and init: "DataLoaderLite_init b t r w shs = Inr s0"
  shows "shs \<noteq> [] \<and> loader_inv b t r w shs s0"
proof -
  have ne: "shs \<noteq> []"
    using init by (auto simp: DataLoaderLite_init_def)
  then have "hd shs \<in> set shs" by simp
  then have "b * t * w + 1 \<le> length (shs ! 0)" using ne assms(2) by (simp add: hd_conv_nth)
  then have "b * t * r + b * t + 1 \<le> length (shs ! 0)"
    using assms(1) by (rule rank_window[rotated])
  then have "loader_inv b t r w shs s0"
    using init ne
    by (auto simp: DataLoaderLite_init_def reset_def load_tokens_def loader_inv_def
        full_window_def)
  with ne show ?thesis by simp
qed

lemma run_ops_inv:
  assumes "r < w" "shs \<noteq> []" "\<forall>sh\<in>set shs. b * t * w + 1 \<le> length sh"
  shows "loader_inv b t r w shs s \<Longrightarrow> \<exists>s'. run_ops ops s = Inr s' \<and> loader_inv b t r w shs s'"
proof (induction ops arbitrary: s)
  case Nil
  then show ?case by simp
next
  case (Cons op ops)
  show ?case
  proof (cases op)
    case NextBatch
    obtain x y s1 where "next_batch s = Inr (x, y, s1)" "loader_inv b t r w shs s1"
      using next_batch_inv[OF assms Cons.prems] by blast
    then show ?thesis using Cons.IH[of s1] NextBatch by simp
  next
    case Reset
    obtain s1 where "reset s = Inr s1" "loader_inv b t r w shs s1"
      using reset_inv[OF assms Cons.prems] by blast
    then show ?thesis using Cons.IH[of s1] Reset by simp
  qed
qed

text \<open>
  Claim C10. A loader of rank \<open>r < w\<close> over shards that each hold at least
  \<open>b * t * w + 1\<close> tokens: after any sequence of \<^verbatim>\<open>next_batch\<close> and \<^verbatim>\<open>reset\<close>
  calls the sequence has not failed, the tokens in memory are the current shard's, the
  cursor leaves room for a full window of \<open>b * t + 1\<close> tokens, and the next
  \<^verbatim>\<open>next_batch\<close> returns a batch (neither \<^verbatim>\<open>view\<close> raises).
\<close>

theorem next_batch_always_full_window:
  assumes "r < w"
    and "\<forall>sh\<in>set shs. b * t * w + 1 \<le> length sh"
    and "DataLoaderLite_init b t r w shs = Inr s0"
  shows "\<exists>s. run_ops ops s0 = Inr s \<and> full_window s \<and>
           tokens s = shs ! current_shard s \<and> current_shard s < length shs \<and>
           (\<exists>x y s'. next_batch s = Inr (x, y, s'))"
proof -
  have ne: "shs \<noteq> []" and inv0: "loader_inv b t r w shs s0"
    using init_inv[OF assms] by simp_all
  obtain s where s: "run_ops ops s0 = Inr s" "loader_inv b t r w shs s"
    using run_ops_inv[OF assms(1) ne assms(2) inv0] by blast
  obtain x y s' where "next_batch s = Inr (x, y, s')"
    using next_batch_inv[OF assms(1) ne assms(2) s(2)] by blast
  with s show ?thesis by (auto simp: loader_inv_def)
qed

theorem next_batch_always_full_window_witness:
  "\<exists>s. run_ops [NextBatch, NextBatch, Reset, NextBatch]
          \<lparr>B = 1, T = 2, process_rank = 1, num_processes = 2,
           shards = [[10, 11, 12, 13, 14, 15, 16, 17, 18], [20, 21, 22, 23, 24]],
           current_shard = 0, tokens = [10, 11, 12, 13, 14, 15, 16, 17, 18],
           current_position = 2\<rparr> = Inr s \<and> full_window s"
proof -
  let ?shs = "[[10, 11, 12, 13, 14, 15, 16, 17, 18], [20, 21, 22, 23, 24 :: int]]"
  have r: "(1::nat) < 2" by simp
  have long: "\<forall>sh\<in>set ?shs. 1 * 2 * 2 + 1 \<le> length sh" by simp
  have init: "DataLoaderLite_init 1 2 1 2 ?shs =
      Inr \<lparr>B = 1, T = 2, process_rank = 1, num_processes = 2, shards = ?shs,
           current_shard = 0, tokens = [10, 11, 12, 13, 14, 15, 16, 17, 18],
           current_position = 2\<rparr>"
    by (simp add: DataLoaderLite_init_def reset_def load_tokens_def)
  show ?thesis
    using next_batch_always_full_window[OF r long init, of "[NextBatch, NextBatch, Reset, NextBatch]"]
    by blast
qed

lemma buf_butlast:
  assumes "full_window s"
  shows "butlast (slice (tokens s) (current_position s) (current_position s + B s * T s + 1))
       = slice (tokens s) (current_position s) (current_position s + B s * T s)"
  using assms by (simp add: slice_def full_window_def butlast_take)

lemma buf_tl:
  "tl (slice (tokens s) (current_position s) (current_position s + B s * T s + 1))
       = slice (tokens s) (current_position s + 1) (current_position s + B s * T s + 1)"
  by (simp add: slice_def tl_take tl_drop drop_Suc)

lemma next_batch_reads:
  assumes fw: "full_window s"
  shows "\<exists>x y. view2 (slice (tokens s) (current_position s) (current_position s + B s * T s)) (B s) (T s) = Inr x \<and>
     view2 (slice (tokens s) (current_position s + 1) (current_position s + B s * T s + 1)) (B s) (T s) = Inr y \<and>
     concat x = slice (tokens s) (current_position s) (current_position s + B s * T s) \<and>
     concat y = slice (tokens s) (current_position s + 1) (current_position s + B s * T s + 1) \<and>
     next_batch s =
       (let s1 = s\<lparr>current_position := current_position s + B s * T s * num_processes s\<rparr> in
       if current_position s1 + (B s1 * T s1 * num_processes s1 + 1) > length (tokens s1)
       then
         (if length (shards s1) = 0 then Inl ZeroDivisionError
          else
            (let s2 = s1\<lparr>current_shard := (current_shard s1 + 1) mod length (shards s1)\<rparr> in
             case load_tokens (shards s2) (current_shard s2) of
               Inl e \<Rightarrow> Inl e
             | Inr toks \<Rightarrow>
                 Inr (x, y, s2\<lparr>tokens := toks,
                                current_position := B s2 * T s2 * process_rank s2\<rparr>)))
       else Inr (x, y, s1))"
proof -
  let ?p = "current_position s"
  let ?xs = "slice (tokens s) ?p (?p + B s * T s)"
  let ?ys = "slice (tokens s) (?p + 1) (?p + B s * T s + 1)"
  have lx: "length ?xs = B s * T s" and ly: "length ?ys = B s * T s"
    using fw by (simp_all add: slice_def full_window_def)
  obtain x where x: "view2 ?xs (B s) (T s) = Inr x" "concat x = ?xs"
    using view2_ok[OF lx] by blast
  obtain y where y: "view2 ?ys (B s) (T s) = Inr y" "concat y = ?ys"
    using view2_ok[OF ly] by blast
  show ?thesis
    unfolding next_batch_def Let_def buf_butlast[OF fw] buf_tl
    using x y by simp
qed

lemma next_batch_no_wrap:
  assumes "1 \<le> num_processes s"
    and "current_position s + B s * T s * num_processes s + B s * T s * num_processes s + 1 \<le> length (tokens s)"
  shows "\<exists>x y. next_batch s = Inr (x, y, s\<lparr>current_position := current_position s + B s * T s * num_processes s\<rparr>)"
proof -
  have "B s * T s * 1 \<le> B s * T s * num_processes s" using assms(1) by (rule mult_le_mono2)
  then have "B s * T s \<le> B s * T s * num_processes s" by simp
  then have "current_position s + B s * T s + 1 \<le> length (tokens s)" using assms(2) by linarith
  then have "full_window s" by (simp add: full_window_def)
  from next_batch_reads[OF this] show ?thesis using assms(2) by (auto simp: Let_def)
qed

lemma after_batches_no_wrap:
  assumes "1 \<le> num_processes s"
    and "n = 0 \<or> current_position s + n * (B s * T s * num_processes s) + B s * T s * num_processes s + 1 \<le> length (tokens s)"
  shows "after_batches n s = Inr (s\<lparr>current_position := current_position s + n * (B s * T s * num_processes s)\<rparr>)"
  using assms
proof (induction n arbitrary: s)
  case 0
  then show ?case by simp
next
  case (Suc n)
  let ?m = "B s * T s * num_processes s"
  let ?s1 = "s\<lparr>current_position := current_position s + ?m\<rparr>"
  have bound: "current_position s + Suc n * ?m + ?m + 1 \<le> length (tokens s)"
    using Suc.prems(2) by simp
  then have "current_position s + ?m + ?m + 1 \<le> length (tokens s)" by simp
  then obtain x y where nb: "next_batch s = Inr (x, y, ?s1)"
    using next_batch_no_wrap[OF Suc.prems(1)] by blast
  have "after_batches n ?s1 = Inr (?s1\<lparr>current_position := current_position ?s1 + n * (B ?s1 * T ?s1 * num_processes ?s1)\<rparr>)"
    using Suc.prems(1) bound by (intro Suc.IH) (simp_all add: algebra_simps)
  then show ?case using nb by (simp add: algebra_simps)
qed

lemma view2_2_4:
  "length xs = 8 \<Longrightarrow> view2 xs 2 4 = Inr [take 4 xs, take 4 (drop 4 xs)]"
  by (simp add: view2_def upt_rec)

lemma scenario_init:
  "length toks = 10000 \<Longrightarrow> DataLoaderLite_init 2 4 0 1 [toks] = Inr (scenario_loader toks)"
  by (simp add: DataLoaderLite_init_def reset_def load_tokens_def scenario_loader_def)

lemma scenario_fetch:
  assumes "length toks = 10000" "p + 17 \<le> 10000"
  shows "next_batch (scenario_loader toks\<lparr>current_position := p\<rparr>) =
     Inr ([slice toks p (p + 4), slice toks (p + 4) (p + 8)],
          [slice toks (p + 1) (p + 5), slice toks (p + 5) (p + 9)],
          scenario_loader toks\<lparr>current_position := p + 8\<rparr>)"
proof -
  let ?s = "scenario_loader toks\<lparr>current_position := p\<rparr>"
  have fw: "full_window ?s"
    using assms by (simp add: full_window_def scenario_loader_def)
  have f: "B ?s = 2" "T ?s = 4" "num_processes ?s = 1" "tokens ?s = toks" "current_position ?s = p"
    by (simp_all add: scenario_loader_def)
  show ?thesis
    using next_batch_reads[OF fw] assms unfolding f
    by (auto simp: view2_2_4 slice_def Let_def scenario_loader_def add.commute drop_take)
qed

lemma scenario_wrap:
  assumes "length toks = 10000"
  shows "next_batch (scenario_loader toks\<lparr>current_position := 9984\<rparr>) =
     Inr ([slice toks 9984 9988, slice toks 9988 9992],
          [slice toks 9985 9989, slice toks 9989 9993],
          scenario_loader toks)"
proof -
  let ?s = "scenario_loader toks\<lparr>current_position := 9984\<rparr>"
  have fw: "full_window ?s"
    using assms by (simp add: full_window_def scenario_loader_def)
  have f: "B ?s = 2" "T ?s = 4" "num_processes ?s = 1" "tokens ?s = toks" "current_position ?s = 9984"
    by (simp_all add: scenario_loader_def)
  show ?thesis
    using next_batch_reads[OF fw] assms unfolding f
    by (auto simp: view2_2_4 slice_def Let_def scenario_loader_def drop_take load_tokens_def)
qed

lemma after_batches_add:
  "after_batches n s = Inr s' \<Longrightarrow> after_batches (n + m) s = after_batches m s'"
  by (induction n arbitrary: s) (auto split: sum.splits)

lemma scenario_sweep:
  assumes "length toks = 10000" "n \<le> 1248"
  shows "after_batches n (scenario_loader toks) =
           Inr (scenario_loader toks\<lparr>current_position := 8 * n\<rparr>)"
proof -
  let ?s = "scenario_loader toks"
  have f: "B ?s = 2" "T ?s = 4" "num_processes ?s = 1" "tokens ?s = toks" "current_position ?s = 0"
    by (simp_all add: scenario_loader_def)
  have "after_batches n ?s =
      Inr (?s\<lparr>current_position := current_position ?s + n * (B ?s * T ?s * num_processes ?s)\<rparr>)"
    by (rule after_batches_no_wrap) (use assms in \<open>simp_all add: f\<close>)
  then show ?thesis by (simp add: f mult.commute)
qed

lemma next_batch_contract:
  assumes fw: "full_window s" and ne: "shards s \<noteq> []"
  shows "\<exists>x y s'. next_batch s = Inr (x, y, s') \<and>
     view2 (slice (tokens s) (current_position s) (current_position s + B s * T s)) (B s) (T s) = Inr x \<and>
     view2 (slice (tokens s) (current_position s + 1) (current_position s + B s * T s + 1)) (B s) (T s) = Inr y \<and>
     concat x = slice (tokens s) (current_position s) (current_position s + B s * T s) \<and>
     concat y = slice (tokens s) (current_position s + 1) (current_position s + B s * T s + 1) \<and>
     (if current_position s + B s * T s * num_processes s + (B s * T s * num_processes s + 1)
           > length (tokens s)
      then s' = s\<lparr>current_shard := (current_shard s + 1) mod length (shards s),
                    tokens := shards s ! ((current_shard s + 1) mod length (shards s)),
                    current_position := B s * T s * process_rank s\<rparr>
      else s' = s\<lparr>current_position := current_position s + B s * T s * num_processes s\<rparr>)"
proof -
  have "(current_shard s + 1) mod length (shards s) < length (shards s)"
    using ne by simp
  then show ?thesis
    using next_batch_reads[OF fw] ne
    by (cases "current_position s + B s * T s * num_processes s + (B s * T s * num_processes s + 1)
           > length (tokens s)") (auto simp: Let_def load_tokens_def)
qed

text \<open>
  Claim C5. One shard of 10000 tokens, \<open>B = 2\<close>, \<open>T = 4\<close>, one process. The constructor
  yields the loader at cursor 0; the first \<^verbatim>\<open>next_batch\<close> returns \<^verbatim>\<open>tokens[0:8]\<close> and
  \<^verbatim>\<open>tokens[1:9]\<close>, each viewed as 2 rows of 4, and leaves the cursor at 8; the second
  returns \<^verbatim>\<open>tokens[8:16]\<close> and \<^verbatim>\<open>tokens[9:17]\<close>; after \<open>n \<le> 1248\<close> calls the cursor is
  \<open>8 * n\<close>, and the call number 1249 wraps to shard 0 at cursor 0. In general, a
  \<^verbatim>\<open>next_batch\<close> that finds \<open>B * T + 1\<close> tokens at the cursor returns the \<open>B * T\<close> tokens
  at the cursor as inputs and the \<open>B * T\<close> tokens one position later as targets, each
  viewed as \<open>B\<close> rows of \<open>T\<close>, and adds \<open>B * T * num_processes\<close> to the cursor; when
  the window after the next would pass the end of the shard, it then moves to the next
  shard (cyclically) at cursor \<open>B * T * process_rank\<close>.
\<close>

theorem next_batch_scenario:
  assumes "length toks = 10000"
  shows "DataLoaderLite_init 2 4 0 1 [toks] = Inr (scenario_loader toks) \<and>
     next_batch (scenario_loader toks) =
       Inr ([slice toks 0 4, slice toks 4 8], [slice toks 1 5, slice toks 5 9],
            scenario_loader toks\<lparr>current_position := 8\<rparr>) \<and>
     view2 (slice toks 0 8) 2 4 = Inr [slice toks 0 4, slice toks 4 8] \<and>
     view2 (slice toks 1 9) 2 4 = Inr [slice toks 1 5, slice toks 5 9] \<and>
     next_batch (scenario_loader toks\<lparr>current_position := 8\<rparr>) =
       Inr ([slice toks 8 12, slice toks 12 16], [slice toks 9 13, slice toks 13 17],
            scenario_loader toks\<lparr>current_position := 16\<rparr>) \<and>
     view2 (slice toks 8 16) 2 4 = Inr [slice toks 8 12, slice toks 12 16] \<and>
     (\<forall>n\<le>1248. after_batches n (scenario_loader toks) =
        Inr (scenario_loader toks\<lparr>current_position := 8 * n\<rparr>)) \<and>
     after_batches 1249 (scenario_loader toks) = Inr (scenario_loader toks) \<and>
     (\<forall>s. full_window s \<and> shards s \<noteq> [] \<longrightarrow>
        (\<exists>x y s'. next_batch s = Inr (x, y, s') \<and>
           view2 (slice (tokens s) (current_position s) (current_position s + B s * T s))
             (B s) (T s) = Inr x \<and>
           view2 (slice (tokens s) (current_position s + 1) (current_position s + B s * T s + 1))
             (B s) (T s) = Inr y \<and>
           concat x = slice (tokens s) (current_position s) (current_position s + B s * T s) \<and>
           concat y =
             slice (tokens s) (current_position s + 1) (current_position s + B s * T s + 1) \<and>
           (if current_position s + B s * T s * num_processes s
                 + (B s * T s * num_processes s + 1) > length (tokens s)
            then s' = s\<lparr>current_shard := (current_shard s + 1) mod length (shards s),
                          tokens := shards s ! ((current_shard s + 1) mod length (shards s)),
                          current_position := B s * T s * process_rank s\<rparr>
            else s' = s\<lparr>current_position :=
                            current_position s + B s * T s * num_processes s\<rparr>)))"
proof -
  have a: "DataLoaderLite_init 2 4 0 1 [toks] = Inr (scenario_loader toks)"
    using assms by (rule scenario_init)
  have b: "next_batch (scenario_loader toks) =
       Inr ([slice toks 0 4, slice toks 4 8], [slice toks 1 5, slice toks 5 9],
            scenario_loader toks\<lparr>current_position := 8\<rparr>)"
    using scenario_fetch[OF assms, of 0] by (simp add: scenario_loader_def)
  have c: "next_batch (scenario_loader toks\<lparr>current_position := 8\<rparr>) =
       Inr ([slice toks 8 12, slice toks 12 16], [slice toks 9 13, slice toks 13 17],
            scenario_loader toks\<lparr>current_position := 16\<rparr>)"
    using scenario_fetch[OF assms, of 8] by simp
  have v: "view2 (slice toks 0 8) 2 4 = Inr [slice toks 0 4, slice toks 4 8]"
    "view2 (slice toks 1 9) 2 4 = Inr [slice toks 1 5, slice toks 5 9]"
    "view2 (slice toks 8 16) 2 4 = Inr [slice toks 8 12, slice toks 12 16]"
    using assms by (simp_all add: view2_2_4 slice_def drop_take)
  have d: "\<forall>n\<le>1248. after_batches n (scenario_loader toks) =
        Inr (scenario_loader toks\<lparr>current_position := 8 * n\<rparr>)"
    using scenario_sweep[OF assms] by blast
  have "after_batches (1248 + 1) (scenario_loader toks) =
      after_batches 1 (scenario_loader toks\<lparr>current_position := 8 * 1248\<rparr>)"
    using scenario_sweep[OF assms, of 1248] by (intro after_batches_add) simp
  then have e: "after_batches 1249 (scenario_loader toks) = Inr (scenario_loader toks)"
    using scenario_wrap[OF assms] by simp
  have g: "\<forall>s. full_window s \<and> shards s \<noteq> [] \<longrightarrow>
        (\<exists>x y s'. next_batch s = Inr (x, y, s') \<and>
           view2 (slice (tokens s) (current_position s) (current_position s + B s * T s))
             (B s) (T s) = Inr x \<and>
           view2 (slice (tokens s) (current_position s + 1) (current_position s + B s * T s + 1))
             (B s) (T s) = Inr y \<and>
           concat x = slice (tokens s) (current_position s) (current_position s + B s * T s) \<and>
           concat y =
             slice (tokens s) (current_position s + 1) (current_position s + B s * T s + 1) \<and>
           (if current_position s + B s * T s * num_processes s
                 + (B s * T s * num_processes s + 1) > length (tokens s)
            then s' = s\<lparr>current_shard := (current_shard s + 1) mod length (shards s),
                          tokens := shards s ! ((current_shard s + 1) mod length (shards s)),
                          current_position := B s * T s * process_rank s\<rparr>
            else s' = s\<lparr>current_position :=
                            current_position s + B s * T s * num_processes s\<rparr>))"
    using next_batch_contract by blast
  show ?thesis
    by (intro conjI) (fact a b c v d e g)+
qed


theorem next_batch_scenario_witness:
  "next_batch (scenario_loader (replicate 10000 0)) =
     Inr ([slice (replicate 10000 0) 0 4, slice (replicate 10000 0) 4 8],
          [slice (replicate 10000 0) 1 5, slice (replicate 10000 0) 5 9],
          scenario_loader (replicate 10000 0)\<lparr>current_position := 8\<rparr>) \<and>
   after_batches 1249 (scenario_loader (replicate 10000 0)) =
     Inr (scenario_loader (replicate 10000 0))"
proof -
  have len: "length (replicate 10000 (0::int)) = 10000" by simp
  show ?thesis
    using next_batch_scenario[OF len] by blast
qed

section \<open>The windows of distinct ranks\<close>








section \<open>Properties of the learning-rate schedule\<close>











subsection \<open>Rounding\<close>






















section \<open>Causality of the forward pass\<close>

text \<open>
  The forward pass commutes with taking a prefix of the sequence: the masked attention
  weights vanish above the diagonal, and every other operation works row by row.
\<close>

lemma sum_list_upt_cut:
  assumes "n \<le> m" "\<And>j. n \<le> j \<Longrightarrow> j < m \<Longrightarrow> g j = (0::real)"
  shows "sum_list (map g [0..<m]) = sum_list (map g [0..<n])"
proof -
  have "[0..<m] = [0..<n] @ [n..<m]"
    using assms(1) by (metis le_add_diff_inverse upt_add_eq_append zero_le)
  moreover have "map g [n..<m] = map (\<lambda>_. 0) [n..<m]"
    by (rule map_cong[OF refl]) (simp add: assms(2))
  then have "sum_list (map g [n..<m]) = sum_list (map (\<lambda>_. 0::real) [n..<m])"
    by (rule arg_cong)
  then have "sum_list (map g [n..<m]) = 0"
    by (simp only: sum_list_0)
  ultimately show ?thesis by simp
qed

lemma masked_exp_take:
  assumes "i < n"
  shows "masked_exp (take n q) (take n k) i j = masked_exp q k i j"
  using assms by (simp add: masked_exp_def)

lemma masked_exp_above: "i < j \<Longrightarrow> masked_exp q k i j = 0"
  by (simp add: masked_exp_def)

lemma att_above: "i < j \<Longrightarrow> att q k i j = 0"
  by (simp add: att_def masked_exp_above)

lemma att_take:
  assumes "i < n" "n \<le> length k"
  shows "att (take n q) (take n k) i j = att q k i j"
proof -
  have "sum_list (map (masked_exp q k i) [0..<length k]) = sum_list (map (masked_exp q k i) [0..<n])"
    using assms by (intro sum_list_upt_cut) (simp_all add: masked_exp_above)
  moreover have "map (masked_exp (take n q) (take n k) i) [0..<n] = map (masked_exp q k i) [0..<n]"
    by (rule map_cong[OF refl]) (simp add: masked_exp_take[OF assms(1)])
  moreover have "length (take n k) = n" using assms(2) by simp
  ultimately show ?thesis
    unfolding att_def masked_exp_take[OF assms(1)] by simp
qed

lemma sdpa_take:
  assumes "n \<le> length q" "n \<le> length k"
  shows "scaled_dot_product_attention hs (take n q) (take n k) (take n v)
       = take n (scaled_dot_product_attention hs q k v)"
proof -
  have row: "sum_list (map (\<lambda>j. att (take n q) (take n k) i j * (take n v ! j ! d)) [0..<n])
      = sum_list (map (\<lambda>j. att q k i j * (v ! j ! d)) [0..<length k])" if "i < n" for i d
  proof -
    have cut: "sum_list (map (\<lambda>j. att q k i j * (v ! j ! d)) [0..<length k])
        = sum_list (map (\<lambda>j. att q k i j * (v ! j ! d)) [0..<n])"
      using assms(2) that by (intro sum_list_upt_cut) (simp_all add: att_above)
    have same: "map (\<lambda>j. att (take n q) (take n k) i j * (take n v ! j ! d)) [0..<n]
        = map (\<lambda>j. att q k i j * (v ! j ! d)) [0..<n]"
      by (rule map_cong[OF refl]) (simp add: att_take[OF that assms(2)])
    show ?thesis unfolding cut same ..
  qed
  have lq: "length (take n q) = n" and lk: "length (take n k) = n"
    using assms by simp_all
  have "take n (scaled_dot_product_attention hs q k v)
      = map (\<lambda>i. map (\<lambda>d. sum_list (map (\<lambda>j. att q k i j * (v ! j ! d)) [0..<length k])) [0..<hs]) [0..<n]"
    using assms(1) by (simp add: scaled_dot_product_attention_def take_map min_def)
  also have "\<dots> = map (\<lambda>i. map (\<lambda>d. sum_list (map (\<lambda>j. att (take n q) (take n k) i j * (take n v ! j ! d)) [0..<n])) [0..<hs]) [0..<n]"
    by (rule map_cong[OF refl]) (simp add: row)
  also have "\<dots> = scaled_dot_product_attention hs (take n q) (take n k) (take n v)"
    unfolding scaled_dot_product_attention_def lq lk ..
  finally show ?thesis by simp
qed

lemma head_take: "head hs i (take n m) = take n (head hs i m)"
  by (simp add: head_def take_map)

lemma length_head: "length (head hs i m) = length m"
  by (simp add: head_def)

lemma length_sdpa: "length (scaled_dot_product_attention hs q k v) = length q"
  by (simp add: scaled_dot_product_attention_def)

lemma attention_take:
  assumes "n \<le> length x"
  shows "CausalSelfAttention_forward a (take n x) = take n (CausalSelfAttention_forward a x)"
proof -
  let ?C = "attn_n_embd a" and ?nh = "attn_n_head a"
  let ?hs = "?C div ?nh"
  let ?qkv = "map (Linear_forward (attn_c_attn a)) x"
  let ?q = "map (\<lambda>r. take ?C r) ?qkv"
  let ?k = "map (\<lambda>r. take ?C (drop ?C r)) ?qkv"
  let ?v = "map (\<lambda>r. take ?C (drop (2 * ?C) r)) ?qkv"
  let ?ys = "\<lambda>q k v. map (\<lambda>i. scaled_dot_product_attention ?hs (head ?hs i q) (head ?hs i k) (head ?hs i v)) [0..<?nh]"
  have ys: "?ys (take n ?q) (take n ?k) (take n ?v) = map (take n) (?ys ?q ?k ?v)"
    using assms by (simp add: head_take sdpa_take length_head)
  have rows: "map (\<lambda>i. concat (map (\<lambda>yh. yh ! i) (map (take n) (?ys ?q ?k ?v)))) [0..<n]
      = map (\<lambda>i. concat (map (\<lambda>yh. yh ! i) (?ys ?q ?k ?v))) [0..<n]"
    by (simp add: comp_def)
  have "CausalSelfAttention_forward a (take n x)
      = map (Linear_forward (attn_c_proj a))
          (map (\<lambda>i. concat (map (\<lambda>yh. yh ! i) (?ys (take n ?q) (take n ?k) (take n ?v)))) [0..<n])"
    using assms by (simp add: CausalSelfAttention_forward_def Let_def take_map min_def)
  also have "\<dots> = map (Linear_forward (attn_c_proj a))
          (map (\<lambda>i. concat (map (\<lambda>yh. yh ! i) (?ys ?q ?k ?v))) [0..<n])"
    unfolding ys rows ..
  also have "\<dots> = take n (CausalSelfAttention_forward a x)"
    using assms by (simp add: CausalSelfAttention_forward_def Let_def take_map min_def)
  finally show ?thesis .
qed

lemma length_attention: "length (CausalSelfAttention_forward a x) = length x"
  by (simp add: CausalSelfAttention_forward_def Let_def)

lemma length_Block_forward: "length (Block_forward b x) = length x"
  by (simp add: Block_forward_def Let_def length_attention)

lemma Block_take:
  assumes "n \<le> length x"
  shows "Block_forward b (take n x) = take n (Block_forward b x)"
proof -
  let ?a = "\<lambda>x. CausalSelfAttention_forward (attn b) (map (LayerNorm_forward (ln_1 b)) x)"
  have "?a (take n x) = CausalSelfAttention_forward (attn b) (take n (map (LayerNorm_forward (ln_1 b)) x))"
    by (simp add: take_map)
  also have "\<dots> = take n (?a x)"
    using assms by (intro attention_take) simp
  finally have a: "?a (take n x) = take n (?a x)" .
  have x1: "map2 vadd (take n x) (?a (take n x)) = take n (map2 vadd x (?a x))"
    unfolding a by (simp add: take_map take_zip)
  show ?thesis
    unfolding Block_forward_def Let_def x1 by (simp add: take_map take_zip)
qed

lemma length_fold_Block: "length (fold Block_forward bs x) = length x"
  by (induction bs arbitrary: x) (simp_all add: length_Block_forward)

lemma fold_Block_take:
  "n \<le> length x \<Longrightarrow> fold Block_forward bs (take n x) = take n (fold Block_forward bs x)"
  by (induction bs arbitrary: x) (simp_all add: Block_take length_Block_forward)


lemma collect_length: "collect rs = Inr as \<Longrightarrow> length as = length rs"
  by (induction rs arbitrary: as rule: collect.induct) (auto split: sum.splits)

lemma collect_take: "collect rs = Inr as \<Longrightarrow> collect (take n rs) = Inr (take n as)"
proof (induction rs arbitrary: as n rule: collect.induct)
  case 1
  then show ?case by simp
next
  case (2 e rs)
  then show ?case by simp
next
  case (3 a rs)
  then obtain as' where as': "collect rs = Inr as'" "as = a # as'"
    by (auto split: sum.splits)
  show ?case
  proof (cases n)
    case 0
    then show ?thesis by simp
  next
    case (Suc m)
    then show ?thesis using "3.IH"[OF as'(1), of m] as'(2) by simp
  qed
qed

lemma length_GPT_forward_seq:
  "GPT_forward_seq g toks = Inr l \<Longrightarrow> length l = length toks"
  by (auto simp: GPT_forward_seq_def Let_def length_fold_Block dest!: collect_length
      split: sum.splits)

lemma GPT_forward_seq_take:
  assumes "GPT_forward_seq g toks = Inr l" "n \<le> length toks"
  shows "GPT_forward_seq g (take n toks) = Inr (take n l)"
proof -
  obtain pos_emb tok_emb where
    pe: "collect (map (\<lambda>p. Embedding_forward (wpe g) (int p)) [0..<length toks]) = Inr pos_emb"
    and te: "collect (map (Embedding_forward (wte g)) toks) = Inr tok_emb"
    and l: "l = map (Linear_forward (lm_head g)) (map (LayerNorm_forward (ln_f g))
              (fold Block_forward (h g) (map2 vadd tok_emb pos_emb)))"
    using assms(1) by (auto simp: GPT_forward_seq_def Let_def split: sum.splits)
  have lens: "length pos_emb = length toks" "length tok_emb = length toks"
    using collect_length[OF pe] collect_length[OF te] by simp_all
  have "map (\<lambda>p. Embedding_forward (wpe g) (int p)) [0..<length (take n toks)]
      = take n (map (\<lambda>p. Embedding_forward (wpe g) (int p)) [0..<length toks])"
    using assms(2) by (simp add: take_map min_def)
  then have pe': "collect (map (\<lambda>p. Embedding_forward (wpe g) (int p)) [0..<length (take n toks)])
      = Inr (take n pos_emb)"
    using collect_take[OF pe, of n] by simp
  have te': "collect (map (Embedding_forward (wte g)) (take n toks)) = Inr (take n tok_emb)"
    using collect_take[OF te, of n] by (simp add: take_map)
  have x: "map2 vadd (take n tok_emb) (take n pos_emb) = take n (map2 vadd tok_emb pos_emb)"
    by (simp add: take_map take_zip)
  have "n \<le> length (map2 vadd tok_emb pos_emb)"
    using assms(2) lens by simp
  then have f: "fold Block_forward (h g) (take n (map2 vadd tok_emb pos_emb))
      = take n (fold Block_forward (h g) (map2 vadd tok_emb pos_emb))"
    by (rule fold_Block_take)
  have fx: "fold Block_forward (h g) (map2 vadd (take n tok_emb) (take n pos_emb))
      = take n (fold Block_forward (h g) (map2 vadd tok_emb pos_emb))"
    unfolding x f ..
  show ?thesis
    unfolding GPT_forward_seq_def pe' te' Let_def l
    by (simp add: fx take_map)
qed

lemma GPT_forward_seq_causal:
  assumes a: "GPT_forward_seq g toks = Inr l" and b: "GPT_forward_seq g toks' = Inr l'"
    and i: "i < length toks" "i < length toks'"
    and agree: "\<forall>j\<le>i. toks ! j = toks' ! j"
  shows "l ! i = l' ! i"
proof -
  have "take (Suc i) toks = take (Suc i) toks'"
    using i agree by (intro nth_equalityI) simp_all
  then have "take (Suc i) l = take (Suc i) l'"
    using GPT_forward_seq_take[OF a, of "Suc i"] GPT_forward_seq_take[OF b, of "Suc i"] i
    by simp
  then have "take (Suc i) l ! i = take (Suc i) l' ! i" by simp
  then show ?thesis by simp
qed

section \<open>Errors and shapes of the forward pass\<close>

lemma collect_nth:
  "collect rs = Inr as \<Longrightarrow> i < length rs \<Longrightarrow> rs ! i = Inr (as ! i)"
proof (induction rs arbitrary: as i rule: collect.induct)
  case 1
  then show ?case by simp
next
  case (2 e rs)
  then show ?case by simp
next
  case (3 a rs)
  then obtain as' where as': "collect rs = Inr as'" "as = a # as'"
    by (auto split: sum.splits)
  then show ?case using "3.IH"[OF as'(1)] "3.prems"(2) by (cases i) simp_all
qed

lemma collect_Inr:
  "\<forall>r\<in>set rs. \<exists>a. r = Inr a \<Longrightarrow> \<exists>as. collect rs = Inr as"
  by (induction rs rule: collect.induct) auto

lemma collect_Inl:
  "collect rs = Inl e \<Longrightarrow> Inl e \<in> set rs"
  by (induction rs rule: collect.induct) (auto split: sum.splits)

lemma tiny_GPT_shape: "GPT_shape tiny_GPT"
  by (simp add: GPT_shape_def tiny_GPT_def mat_shape_def Block_shape_def Linear_shape_def
      LayerNorm_shape_def)

text \<open>
  Claim C7. Two runs of the forward pass on token arrays of the same shape that both
  return logits: if row \<open>r\<close> of the two arrays holds the same token ids at the positions
  \<open>j \<le> i\<close>, then the logits of row \<open>r\<close> at position \<open>i\<close> are the same in both runs,
  whatever the token ids at the positions after \<open>i\<close> are.
\<close>

theorem GPT_forward_causal:
  assumes "GPT_forward g idx = Inr ls" and "GPT_forward g idx' = Inr ls'"
    and "tensor_ok idx" and "tensor_ok idx'"
    and "dim0 idx' = dim0 idx" and "dim1 idx' = dim1 idx"
    and "r < dim0 idx" and "i < dim1 idx"
    and "\<forall>j\<le>i. rows idx ! r ! j = rows idx' ! r ! j"
  shows "ls ! r ! i = ls' ! r ! i"
proof -
  have c: "collect (map (GPT_forward_seq g) (rows idx)) = Inr ls"
    "collect (map (GPT_forward_seq g) (rows idx')) = Inr ls'"
    using assms(1,2) by (auto simp: GPT_forward_def split: if_splits)
  have r: "r < length (rows idx)" "r < length (rows idx')"
    using assms(3-7) by (simp_all add: tensor_ok_def)
  have len: "length (rows idx ! r) = dim1 idx" "length (rows idx' ! r) = dim1 idx"
    using assms(3-6) r by (simp_all add: tensor_ok_def list_all_length)
  have a: "GPT_forward_seq g (rows idx ! r) = Inr (ls ! r)"
    using collect_nth[OF c(1), of r] r by simp
  have b: "GPT_forward_seq g (rows idx' ! r) = Inr (ls' ! r)"
    using collect_nth[OF c(2), of r] r by simp
  show ?thesis
    using assms(8,9) len by (intro GPT_forward_seq_causal[OF a b]) simp_all
qed


lemma collect_has_Inl:
  "\<exists>e. Inl e \<in> set rs \<Longrightarrow> \<exists>e. collect rs = Inl e"
  by (induction rs rule: collect.induct) (auto split: sum.splits)

lemma Embedding_forward_error: "Inl e = Embedding_forward w i \<Longrightarrow> e = IndexError"
  by (simp add: Embedding_forward_def split: if_splits)

lemma GPT_forward_seq_error:
  assumes "GPT_forward_seq g toks = Inl e"
  shows "e = IndexError"
proof -
  from assms consider
      "collect (map (\<lambda>p. Embedding_forward (wpe g) (int p)) [0..<length toks]) = Inl e"
    | "collect (map (Embedding_forward (wte g)) toks) = Inl e"
    by (auto simp: GPT_forward_seq_def Let_def split: sum.splits)
  then show ?thesis
    by cases (auto dest!: collect_Inl dest: Embedding_forward_error)
qed

lemma GPT_forward_error:
  assumes "GPT_forward g idx = Inl e"
  shows "e = (if dim1 idx \<le> block_size (config g) then IndexError else AssertionError)"
proof (cases "dim1 idx \<le> block_size (config g)")
  case True
  then have "collect (map (GPT_forward_seq g) (rows idx)) = Inl e"
    using assms by (simp add: GPT_forward_def)
  then have "Inl e \<in> set (map (GPT_forward_seq g) (rows idx))" by (rule collect_Inl)
  then obtain row where "GPT_forward_seq g row = Inl e" by auto
  then show ?thesis using True GPT_forward_seq_error by simp
next
  case False
  then show ?thesis using assms by (simp add: GPT_forward_def)
qed

lemma positions_embedded:
  assumes "n \<le> length w"
  shows "\<exists>es. collect (map (\<lambda>p. Embedding_forward w (int p)) [0..<n]) = Inr es"
  using assms by (intro collect_Inr) (auto simp: Embedding_forward_def)

lemma tokens_embedded:
  assumes "list_all (\<lambda>t. 0 \<le> t \<and> t < int (length w)) toks"
  shows "\<exists>es. collect (map (Embedding_forward w) toks) = Inr es"
  using assms by (intro collect_Inr) (auto simp: Embedding_forward_def list_all_iff)

lemma tokens_not_embedded:
  assumes "\<not> list_all (\<lambda>t. 0 \<le> t \<and> t < int (length w)) toks"
  shows "\<exists>e. collect (map (Embedding_forward w) toks) = Inl e"
proof -
  obtain t where "t \<in> set toks" "\<not> (0 \<le> t \<and> t < int (length w))"
    using assms by (auto simp: list_all_iff)
  then have "Inl IndexError \<in> set (map (Embedding_forward w) toks)"
    by (force simp: Embedding_forward_def)
  then show ?thesis by (intro collect_has_Inl) blast
qed

lemma GPT_forward_seq_returns:
  assumes "length toks \<le> length (wpe g)"
    and "list_all (\<lambda>t. 0 \<le> t \<and> t < int (length (wte g))) toks"
  shows "\<exists>l. GPT_forward_seq g toks = Inr l"
proof -
  obtain pe te where
    "collect (map (\<lambda>p. Embedding_forward (wpe g) (int p)) [0..<length toks]) = Inr pe"
    "collect (map (Embedding_forward (wte g)) toks) = Inr te"
    using positions_embedded[OF assms(1)] tokens_embedded[OF assms(2)] by blast
  then show ?thesis by (simp add: GPT_forward_seq_def Let_def)
qed

lemma GPT_forward_seq_raises:
  assumes "length toks \<le> length (wpe g)"
    and "\<not> list_all (\<lambda>t. 0 \<le> t \<and> t < int (length (wte g))) toks"
  shows "GPT_forward_seq g toks = Inl IndexError"
proof -
  obtain pe e where
    "collect (map (\<lambda>p. Embedding_forward (wpe g) (int p)) [0..<length toks]) = Inr pe"
    "collect (map (Embedding_forward (wte g)) toks) = Inl e"
    using positions_embedded[OF assms(1)] tokens_not_embedded[OF assms(2)] by blast
  then have "GPT_forward_seq g toks = Inl e" by (simp add: GPT_forward_seq_def)
  then show ?thesis using GPT_forward_seq_error by blast
qed

lemma GPT_forward_seq_width:
  assumes "GPT_forward_seq g toks = Inr l" "bias (lm_head g) = None"
  shows "list_all (\<lambda>r. length r = length (weight (lm_head g))) l"
  using assms
  by (auto simp: GPT_forward_seq_def Let_def Linear_forward_def list_all_iff split: sum.splits)

lemma GPT_forward_returns:
  assumes sh: "GPT_shape g" and ok: "tensor_ok idx"
    and len: "dim1 idx \<le> block_size (config g)" and voc: "tokens_in_vocab g idx"
  shows "\<exists>ls. GPT_forward g idx = Inr ls \<and>
           logits_shape (dim0 idx) (dim1 idx) (vocab_size (config g)) ls"
proof -
  have wte: "length (wte g) = vocab_size (config g)" and wpe: "length (wpe g) = block_size (config g)"
    and head: "weight (lm_head g) = wte g" "bias (lm_head g) = None"
    using sh by (simp_all add: GPT_shape_def mat_shape_def)
  have row: "\<exists>l. GPT_forward_seq g row = Inr l" if "row \<in> set (rows idx)" for row
  proof (rule GPT_forward_seq_returns)
    show "length row \<le> length (wpe g)"
      using that ok len wpe by (auto simp: tensor_ok_def list_all_iff)
    show "list_all (\<lambda>t. 0 \<le> t \<and> t < int (length (wte g))) row"
      using that voc wte by (auto simp: tokens_in_vocab_def list_all_iff)
  qed
  then obtain ls where ls: "collect (map (GPT_forward_seq g) (rows idx)) = Inr ls"
    using collect_Inr[of "map (GPT_forward_seq g) (rows idx)"] by auto
  have n: "length ls = length (rows idx)" using collect_length[OF ls] by simp
  have each: "length (ls ! r) = dim1 idx \<and>
      list_all (\<lambda>v. length v = vocab_size (config g)) (ls ! r)" if "r < length ls" for r
  proof -
    have f: "GPT_forward_seq g (rows idx ! r) = Inr (ls ! r)"
      using collect_nth[OF ls, of r] that n by simp
    have "length (rows idx ! r) = dim1 idx"
      using ok that n by (simp add: tensor_ok_def list_all_length)
    then show ?thesis
      using length_GPT_forward_seq[OF f] GPT_forward_seq_width[OF f head(2)] head(1) wte by simp
  qed
  have "logits_shape (dim0 idx) (dim1 idx) (vocab_size (config g)) ls"
    using n ok each by (simp add: logits_shape_def tensor_ok_def list_all_length)
  then show ?thesis using ls len by (simp add: GPT_forward_def)
qed

lemma GPT_forward_raises:
  assumes sh: "GPT_shape g" and ok: "tensor_ok idx"
    and len: "dim1 idx \<le> block_size (config g)" and voc: "\<not> tokens_in_vocab g idx"
  shows "GPT_forward g idx = Inl IndexError"
proof -
  have wte: "length (wte g) = vocab_size (config g)" and wpe: "length (wpe g) = block_size (config g)"
    using sh by (simp_all add: GPT_shape_def mat_shape_def)
  obtain row where row: "row \<in> set (rows idx)"
    "\<not> list_all (\<lambda>t. 0 \<le> t \<and> t < int (length (wte g))) row"
    using voc wte by (auto simp: tokens_in_vocab_def list_all_iff)
  have "length row \<le> length (wpe g)"
    using row(1) ok len wpe by (auto simp: tensor_ok_def list_all_iff)
  then have "GPT_forward_seq g row = Inl IndexError"
    using row(2) by (rule GPT_forward_seq_raises)
  then have "Inl IndexError \<in> set (map (GPT_forward_seq g) (rows idx))"
    using row(1) by force
  then obtain e where "collect (map (GPT_forward_seq g) (rows idx)) = Inl e"
    using collect_has_Inl by blast
  then have e: "GPT_forward g idx = Inl e" using len by (simp add: GPT_forward_def)
  then show ?thesis using GPT_forward_error[OF e] len by simp
qed

text \<open>
  Claim C9, as amended. The forward pass fails on its sequence-length assertion exactly
  when \<open>T\<close> exceeds \<open>block_size\<close>. For a model with the shapes the constructor gives it
  and an input with \<open>T \<le> block_size\<close>, it returns logits of shape
  \<open>[batch, T, vocab_size]\<close> when every token id lies in \<open>[0, vocab_size)\<close>, and raises
  an index error from the embedding lookup otherwise.
\<close>

theorem GPT_forward_sequence_length:
  "(GPT_forward g idx = Inl AssertionError \<longleftrightarrow> block_size (config g) < dim1 idx) \<and>
   (GPT_shape g \<and> tensor_ok idx \<and> dim1 idx \<le> block_size (config g) \<and> tokens_in_vocab g idx \<longrightarrow>
      (\<exists>ls. GPT_forward g idx = Inr ls \<and>
            logits_shape (dim0 idx) (dim1 idx) (vocab_size (config g)) ls)) \<and>
   (GPT_shape g \<and> tensor_ok idx \<and> dim1 idx \<le> block_size (config g) \<and>
      \<not> tokens_in_vocab g idx \<longrightarrow> GPT_forward g idx = Inl IndexError)"
proof (intro conjI impI)
  show "GPT_forward g idx = Inl AssertionError \<longleftrightarrow> block_size (config g) < dim1 idx"
  proof
    assume "GPT_forward g idx = Inl AssertionError"
    from GPT_forward_error[OF this] show "block_size (config g) < dim1 idx"
      by (simp split: if_splits)
  next
    assume "block_size (config g) < dim1 idx"
    then show "GPT_forward g idx = Inl AssertionError" by (simp add: GPT_forward_def)
  qed
next
  assume "GPT_shape g \<and> tensor_ok idx \<and> dim1 idx \<le> block_size (config g) \<and> tokens_in_vocab g idx"
  then show "\<exists>ls. GPT_forward g idx = Inr ls \<and>
            logits_shape (dim0 idx) (dim1 idx) (vocab_size (config g)) ls"
    using GPT_forward_returns by blast
next
  assume "GPT_shape g \<and> tensor_ok idx \<and> dim1 idx \<le> block_size (config g) \<and>
      \<not> tokens_in_vocab g idx"
  then show "GPT_forward g idx = Inl IndexError"
    using GPT_forward_raises by blast
qed


theorem GPT_forward_sequence_length_witness:
  "\<exists>ls. GPT_forward tiny_GPT \<lparr>dim0 = 1, dim1 = 2, rows = [[0, 1]]\<rparr> = Inr ls \<and>
        logits_shape 1 2 2 ls"
proof -
  let ?idx = "\<lparr>dim0 = 1, dim1 = 2, rows = [[0, 1]]\<rparr>"
  have "GPT_shape tiny_GPT \<and> tensor_ok ?idx \<and> dim1 ?idx \<le> block_size (config tiny_GPT) \<and>
      tokens_in_vocab tiny_GPT ?idx"
    by (simp add: tiny_GPT_shape) (simp add: tensor_ok_def tokens_in_vocab_def tiny_GPT_def)
  then have "\<exists>ls. GPT_forward tiny_GPT ?idx = Inr ls \<and>
      logits_shape (dim0 ?idx) (dim1 ?idx) (vocab_size (config tiny_GPT)) ls"
    using GPT_forward_sequence_length[of tiny_GPT ?idx] by blast
  then show ?thesis by (simp add: tiny_GPT_def)
qed

text \<open>
  The claim as stated fails: the one-token input \<open>[[5]]\<close> has \<open>T = 1 \<le> block_size\<close>, and
  the model with a vocabulary of two tokens raises on it.
\<close>

theorem GPT_forward_token_out_of_range:
  "tensor_ok \<lparr>dim0 = 1, dim1 = 1, rows = [[5]]\<rparr> \<and>
   dim1 \<lparr>dim0 = 1, dim1 = 1, rows = [[5]]\<rparr> \<le> block_size (config tiny_GPT) \<and>
   GPT_shape tiny_GPT \<and>
   GPT_forward tiny_GPT \<lparr>dim0 = 1, dim1 = 1, rows = [[5]]\<rparr> = Inl IndexError"
proof -
  let ?idx = "\<lparr>dim0 = 1, dim1 = 1, rows = [[5]]\<rparr>"
  have a: "tensor_ok ?idx" by (simp add: tensor_ok_def)
  have b: "dim1 ?idx \<le> block_size (config tiny_GPT)" by (simp add: tiny_GPT_def)
  have c: "\<not> tokens_in_vocab tiny_GPT ?idx" by (simp add: tokens_in_vocab_def tiny_GPT_def)
  show ?thesis
    using a b tiny_GPT_shape GPT_forward_raises[OF tiny_GPT_shape a b c] by blast
qed

theorem GPT_forward_causal_witness:
  "\<exists>ls ls'. GPT_forward tiny_GPT \<lparr>dim0 = 1, dim1 = 2, rows = [[0, 0]]\<rparr> = Inr ls \<and>
     GPT_forward tiny_GPT \<lparr>dim0 = 1, dim1 = 2, rows = [[0, 1]]\<rparr> = Inr ls' \<and>
     ls ! 0 ! 0 = ls' ! 0 ! 0"
proof -
  let ?a = "\<lparr>dim0 = 1, dim1 = 2, rows = [[0, 0]]\<rparr>"
  let ?b = "\<lparr>dim0 = 1, dim1 = 2, rows = [[0, 1]]\<rparr>"
  have oka: "tensor_ok ?a" and okb: "tensor_ok ?b" by (simp_all add: tensor_ok_def)
  have la: "dim1 ?a \<le> block_size (config tiny_GPT)" and lb: "dim1 ?b \<le> block_size (config tiny_GPT)"
    by (simp_all add: tiny_GPT_def)
  have va: "tokens_in_vocab tiny_GPT ?a" and vb: "tokens_in_vocab tiny_GPT ?b"
    by (simp_all add: tokens_in_vocab_def tiny_GPT_def)
  obtain ls where ls: "GPT_forward tiny_GPT ?a = Inr ls"
    using GPT_forward_returns[OF tiny_GPT_shape oka la va] by blast
  obtain ls' where ls': "GPT_forward tiny_GPT ?b = Inr ls'"
    using GPT_forward_returns[OF tiny_GPT_shape okb lb vb] by blast
  have "ls ! 0 ! 0 = ls' ! 0 ! 0"
    by (rule GPT_forward_causal[OF ls ls' oka okb]) simp_all
  then show ?thesis using ls ls' by blast
qed

section \<open>Initialisation of the projections\<close>

lemma collect_replicate:
  "collect (map (\<lambda>_. Inr a) [0..<n]) = Inr (replicate n a)"
proof (induction n)
  case 0
  then show ?case by simp
next
  case (Suc n)
  have "map (\<lambda>_. Inr a :: error + 'a) [0..<Suc n] = Inr a # map (\<lambda>_. Inr a) [0..<n]"
    by (simp add: map_replicate_trivial replicate_append_same)
  then show ?case using Suc by simp
qed

lemma GPT_modules_blocks:
  assumes "0 < n_head c" "n_embd c mod n_head c = 0"
  shows "GPT_modules c =
     Inr (ModuleDict
            [(''transformer'',
                ModuleDict [(''wte'', Embedding_m), (''wpe'', Embedding_m),
                  (''h'', ModuleList (replicate (n_layer c)
                     (ModuleDict [(''ln_1'', LayerNorm_m),
                        (''attn'', ModuleDict [(''c_attn'', Linear_m True False),
                                                (''c_proj'', Linear_m True True)]),
                        (''ln_2'', LayerNorm_m),
                        (''mlp'', MLP_init c)]))),
                  (''ln_f'', LayerNorm_m)]),
             (''lm_head'', Linear_m False False)])"
  using assms
  by (simp add: GPT_modules_def Block_init_def CausalSelfAttention_init_def collect_replicate)

lemma mlp_c_proj_init:
  assumes "0 < n_head c" "n_embd c mod n_head c = 0" "i < n_layer c"
  shows "param_init c [Name ''transformer'', Name ''h'', Index i, Name ''mlp'', Name ''c_proj''] ''weight''
       = Some (Normal 0 0.02)"
  using assms by (simp add: param_init_def GPT_modules_blocks MLP_init_def)

lemma attn_c_proj_init:
  assumes "0 < n_head c" "n_embd c mod n_head c = 0" "i < n_layer c"
  shows "param_init c [Name ''transformer'', Name ''h'', Index i, Name ''attn'', Name ''c_proj''] ''weight''
       = Some (Normal 0 (0.02 * (2 * real (n_layer c)) powr (- 0.5)))"
  using assms by (simp add: param_init_def GPT_modules_blocks)

lemma scaled_std_smaller:
  assumes "1 \<le> n"
  shows "0.02 * (2 * real n) powr (- 0.5) < (0.02::real)"
proof -
  have "1 < 2 * real n" using assms by simp
  then have "(2 * real n) powr (- 0.5) < (2 * real n) powr 0"
    by (intro powr_less_mono) simp_all
  then have "(2 * real n) powr (- 0.5) < 1" using \<open>1 < 2 * real n\<close> by simp
  then show ?thesis by simp
qed

text \<open>
  Claim C2, on the code. In the model built from the default configuration, the weight
  of the final projection of the MLP of block 0 is drawn with standard deviation 0.02,
  because \<^verbatim>\<open>MLP.__init__\<close> does not set \<^verbatim>\<open>NANOGPT_SCALE_INIT\<close> on it, while the weight of the
  final projection of the attention sublayer of the same block is drawn with
  \<open>0.02 * (2 * n_layer) powr (- 0.5)\<close>, which is smaller.
\<close>

theorem mlp_c_proj_not_scaled:
  "param_init GPTConfig_default
      [Name ''transformer'', Name ''h'', Index 0, Name ''mlp'', Name ''c_proj''] ''weight''
     = Some (Normal 0 0.02) \<and>
   param_init GPTConfig_default
      [Name ''transformer'', Name ''h'', Index 0, Name ''attn'', Name ''c_proj''] ''weight''
     = Some (Normal 0 (0.02 * (2 * real (n_layer GPTConfig_default)) powr (- 0.5))) \<and>
   0.02 * (2 * real (n_layer GPTConfig_default)) powr (- 0.5) < (0.02::real)"
proof -
  have c: "0 < n_head GPTConfig_default"
    "n_embd GPTConfig_default mod n_head GPTConfig_default = 0"
    "0 < n_layer GPTConfig_default" "1 \<le> n_layer GPTConfig_default"
    by (simp_all add: GPTConfig_default_def)
  show ?thesis
    using mlp_c_proj_init[OF c(1,2,3)] attn_c_proj_init[OF c(1,2,3)] scaled_std_smaller[OF c(4)]
    by blast
qed

section \<open>Weight sharing\<close>

lemma set_first_occurrences: "set (first_occurrences as) = set as"
  by (induction as rule: first_occurrences.induct) auto

lemma distinct_first_occurrences: "distinct (first_occurrences as)"
  by (induction as rule: first_occurrences.induct) (auto simp: set_first_occurrences)

lemma head_in_parameters: "lm_head_weight m \<in> set (parameters m)"
  unfolding parameters_def set_first_occurrences by simp

lemma distinct_parameters: "distinct (parameters m)"
  unfolding parameters_def by (rule distinct_first_occurrences)

lemma grad_fold_clear:
  "grad (fold (\<lambda>a hp'. hp'\<lparr>grad := (grad hp')(a := None)\<rparr>) as hp) b
     = (if b \<in> set as then None else grad hp b)"
  by (induction as arbitrary: hp) auto

lemma grad_fold_accumulate_other:
  "a \<notin> fst ` set others \<Longrightarrow> grad (fold (\<lambda>(b, g). accumulate b g) others hp) a = grad hp a"
  by (induction others arbitrary: hp) (auto simp: accumulate_def)

lemma step_param_other:
  "a \<noteq> b \<Longrightarrow> data (step_param upd b hp) a = data hp a"
  by (auto simp: step_param_def split: option.splits)

lemma step_param_grad: "grad (step_param upd b hp) = grad hp"
  by (auto simp: step_param_def split: option.splits)

lemma fold_step_grad: "grad (fold (step_param upd) as hp) = grad hp"
  by (induction as arbitrary: hp) (simp_all add: step_param_grad)

lemma fold_step_other:
  "a \<notin> set as \<Longrightarrow> data (fold (step_param upd) as hp) a = data hp a"
  by (induction as arbitrary: hp) (auto simp: step_param_other)

lemma fold_step_once:
  assumes "distinct as" "a \<in> set as" "data hp a = Some v" "grad hp a = Some g"
  shows "data (fold (step_param upd) as hp) a = Some (upd a v g)"
  using assms
proof (induction as arbitrary: hp)
  case Nil
  then show ?case by simp
next
  case (Cons b as)
  show ?case
  proof (cases "a = b")
    case True
    then have "a \<notin> set as" using Cons.prems(1) by simp
    then have "data (fold (step_param upd) as (step_param upd b hp)) a = data (step_param upd b hp) a"
      by (rule fold_step_other)
    moreover have "data (step_param upd b hp) a = Some (upd a v g)"
      using True Cons.prems(3,4) by (simp add: step_param_def)
    ultimately show ?thesis by (simp only: fold_simps)
  next
    case False
    then have "a \<in> set as" using Cons.prems(2) by simp
    moreover have "data (step_param upd b hp) a = Some v"
      using False Cons.prems(3) by (simp add: step_param_other)
    moreover have "grad (step_param upd b hp) a = Some g"
      using Cons.prems(4) by (simp add: step_param_grad)
    ultimately show ?thesis using Cons.IH[of "step_param upd b hp"] Cons.prems(1) by simp
  qed
qed

lemma new_param_data: "new_param v hp = (a, hp') \<Longrightarrow> data hp' a = Some v"
  by (auto simp: new_param_def)

lemma init_refs:
  assumes "GPT_init_refs wte0 wpe0 hs0 ln0 head0 hp0 = (m, hp)"
  shows "wte_weight m = lm_head_weight m" and "data hp (lm_head_weight m) = Some head0"
  using assms
  by (auto simp: GPT_init_refs_def Let_def new_param_def split: prod.splits)

text \<open>
  Claim C8. After \<^verbatim>\<open>GPT.__init__\<close> the attributes \<^verbatim>\<open>transformer.wte.weight\<close> and
  \<^verbatim>\<open>lm_head.weight\<close> refer to one parameter object, which holds the head's tensor. So the
  two views read the same value after any sequence of \<^verbatim>\<open>zero_grad\<close>, backward passes and
  optimizer steps; a backward pass after \<^verbatim>\<open>zero_grad\<close> leaves in its gradient the sum of the
  contribution of the head's use and that of the embedding's use (added to what was there
  when the gradient was not \<^verbatim>\<open>None\<close>); and an optimizer step updates the object once, from
  that gradient, which both views then show.
\<close>

theorem weight_tying:
  assumes "GPT_init_refs wte0 wpe0 hs0 ln0 head0 hp0 = (m, hp)"
  shows "wte_weight m = lm_head_weight m \<and>
     data hp (lm_head_weight m) = Some head0 \<and>
     (\<forall>ops. data (run_train m ops hp) (wte_weight m)
             = data (run_train m ops hp) (lm_head_weight m)) \<and>
     (\<forall>hp1 g_head g_emb others. lm_head_weight m \<notin> fst ` set others \<longrightarrow>
        grad (run_op m (Backward g_head g_emb others) (run_op m ZeroGrad hp1)) (lm_head_weight m)
          = Some (vadd g_head g_emb)) \<and>
     (\<forall>hp1 g_head g_emb others g0.
        lm_head_weight m \<notin> fst ` set others \<and> grad hp1 (lm_head_weight m) = Some g0 \<longrightarrow>
        grad (run_op m (Backward g_head g_emb others) hp1) (lm_head_weight m)
          = Some (vadd (vadd g0 g_head) g_emb)) \<and>
     (\<forall>hp1 upd v g.
        data hp1 (lm_head_weight m) = Some v \<and> grad hp1 (lm_head_weight m) = Some g \<longrightarrow>
        data (run_op m (OptimizerStep upd) hp1) (lm_head_weight m)
          = Some (upd (lm_head_weight m) v g) \<and>
        data (run_op m (OptimizerStep upd) hp1) (wte_weight m)
          = Some (upd (lm_head_weight m) v g))"
proof -
  note tie = init_refs(1)[OF assms]
  have zero: "grad (run_op m ZeroGrad hp1) (lm_head_weight m) = None" for hp1
    by (simp add: grad_fold_clear head_in_parameters)
  have acc0: "grad (run_op m (Backward g_head g_emb others) hp1) (lm_head_weight m)
      = Some (vadd g_head g_emb)"
    if "lm_head_weight m \<notin> fst ` set others" "grad hp1 (lm_head_weight m) = None"
    for hp1 g_head g_emb others
    using that by (simp add: grad_fold_accumulate_other accumulate_def tie)
  have acc1: "grad (run_op m (Backward g_head g_emb others) hp1) (lm_head_weight m)
      = Some (vadd (vadd g0 g_head) g_emb)"
    if "lm_head_weight m \<notin> fst ` set others" "grad hp1 (lm_head_weight m) = Some g0"
    for hp1 g_head g_emb others g0
    using that by (simp add: grad_fold_accumulate_other accumulate_def tie)
  have step: "data (run_op m (OptimizerStep upd) hp1) (lm_head_weight m)
      = Some (upd (lm_head_weight m) v g)"
    if "data hp1 (lm_head_weight m) = Some v" "grad hp1 (lm_head_weight m) = Some g"
    for hp1 upd v g
    using fold_step_once[OF distinct_parameters head_in_parameters that] by simp
  show ?thesis
    using tie init_refs(2)[OF assms] zero acc0 acc1 step by simp
qed


theorem weight_tying_witness:
  "wte_weight (fst (GPT_init_refs [1, 2] [3] [[4]] [[5], [6]] [7, 8] empty_heap))
     = lm_head_weight (fst (GPT_init_refs [1, 2] [3] [[4]] [[5], [6]] [7, 8] empty_heap)) \<and>
   data (snd (GPT_init_refs [1, 2] [3] [[4]] [[5], [6]] [7, 8] empty_heap))
     (wte_weight (fst (GPT_init_refs [1, 2] [3] [[4]] [[5], [6]] [7, 8] empty_heap)))
     = Some [7, 8] \<and>
   grad (run_op (fst (GPT_init_refs [1, 2] [3] [[4]] [[5], [6]] [7, 8] empty_heap))
           (Backward [1, 1] [2, 2] [])
           (run_op (fst (GPT_init_refs [1, 2] [3] [[4]] [[5], [6]] [7, 8] empty_heap)) ZeroGrad
              (snd (GPT_init_refs [1, 2] [3] [[4]] [[5], [6]] [7, 8] empty_heap))))
     (wte_weight (fst (GPT_init_refs [1, 2] [3] [[4]] [[5], [6]] [7, 8] empty_heap)))
     = Some [3, 3]"
proof -
  let ?r = "GPT_init_refs [1, 2] [3] [[4]] [[5], [6]] [7, 8] empty_heap"
  have init: "?r = (fst ?r, snd ?r)" by simp
  have none: "lm_head_weight (fst ?r) \<notin> fst ` set []" by simp
  have v: "vadd [1, 1] [2, 2] = [3, 3]" by (simp add: vadd_def)
  show ?thesis
    using weight_tying[OF init] none v by metis
qed

section \<open>Gradient synchronisation in a distributed run\<close>

lemma micro_step_model: "model (micro_step ddp k i s) = model s"
  by (simp add: micro_step_def Let_def)

lemma micro_step_issued:
  "issued (micro_step ddp k i s) = issued s @ loss_backward (model s) (require_backward_grad_sync s)"
  by (simp add: micro_step_def Let_def)

lemma micro_step_flag:
  "require_backward_grad_sync (micro_step True k i s) = (int i = int k - 1)"
  by (simp add: micro_step_def Let_def)

lemma no_sync_without_wrapper:
  "model s = Compiled m \<Longrightarrow> issued (fold (micro_step ddp k) js s) = issued s"
proof (induction js arbitrary: s)
  case Nil
  then show ?case by simp
next
  case (Cons j js)
  have "issued (micro_step ddp k j s) = issued s"
    using Cons.prems by (simp add: micro_step_issued)
  moreover have "model (micro_step ddp k j s) = Compiled m"
    using Cons.prems by (simp add: micro_step_model)
  ultimately show ?case using Cons.IH[of "micro_step ddp k j s"] by simp
qed

lemma wrapped_quiet:
  assumes "model s = DDP m" "\<not> require_backward_grad_sync s" "b \<le> Suc k"
  shows "issued (fold (micro_step True (Suc k)) [a..<b] s) = issued s"
  using assms
proof (induction "b - a" arbitrary: a s)
  case 0
  then show ?case by simp
next
  case (Suc n)
  let ?s = "micro_step True (Suc k) a s"
  have ab: "a < b" using Suc.hyps(2) by simp
  then have upt: "[a..<b] = a # [Suc a..<b]" by (rule upt_conv_Cons)
  have i: "issued ?s = issued s" using Suc.prems(1,2) by (simp add: micro_step_issued)
  have m: "model ?s = DDP m" using Suc.prems(1) by (simp add: micro_step_model)
  have f: "require_backward_grad_sync ?s = (a = k)" by (simp add: micro_step_flag)
  show ?case
  proof (cases "a = k")
    case True
    then have e: "[Suc a..<b] = []" using Suc.prems(3) by simp
    show ?thesis unfolding upt e using i by simp
  next
    case False
    have "n = b - Suc a" using Suc.hyps(2) by simp
    from Suc.hyps(1)[OF this m _ Suc.prems(3)] f False
    have "issued (fold (micro_step True (Suc k)) [Suc a..<b] ?s) = issued ?s" by simp
    then show ?thesis unfolding upt using i by simp
  qed
qed

lemma wrapped_sync_first:
  assumes "model s = DDP m" "require_backward_grad_sync s"
  shows "issued (micro_step True (Suc k) 0 s) = issued s @ [AllReduceGradients]"
    and "issued (fold (micro_step True (Suc k)) [0..<Suc k] s) = issued s @ [AllReduceGradients]"
proof -
  let ?s = "micro_step True (Suc k) 0 s"
  show i: "issued ?s = issued s @ [AllReduceGradients]"
    using assms by (simp add: micro_step_issued)
  have m: "model ?s = DDP m" using assms(1) by (simp add: micro_step_model)
  have f: "require_backward_grad_sync ?s = (k = 0)" by (simp add: micro_step_flag)
  have upt: "[0..<Suc k] = 0 # [Suc 0..<Suc k]" by (rule upt_conv_Cons) simp
  show "issued (fold (micro_step True (Suc k)) [0..<Suc k] s) = issued s @ [AllReduceGradients]"
  proof (cases "k = 0")
    case True
    then have e: "[Suc 0..<Suc k] = []" by simp
    show ?thesis unfolding upt e using i by simp
  next
    case False
    then have "issued (fold (micro_step True (Suc k)) [Suc 0..<Suc k] ?s) = issued ?s"
      using f by (intro wrapped_quiet[OF m]) simp_all
    then show ?thesis unfolding upt using i by simp
  qed
qed

text \<open>
  Claim C1, on the code. In a distributed run the collectives of a worker up to the end
  of the first training step are the broadcast of the wrapper's construction and the
  average of the logged loss: no gradient average is performed in the accumulation
  window, for any number of micro-steps, because \<^verbatim>\<open>model\<close> is the compiled module and not
  the wrapper. The optimizer's model is that same module. Had \<^verbatim>\<open>model\<close> been the wrapper,
  the training step would have averaged the gradients once, and that in its first
  micro-step, whose forward pass finds the attribute at its default before line 349
  assigns it.
\<close>

theorem no_gradient_all_reduce:
  "count_list (issued (training_step True k (script_setup True))) AllReduceGradients = 0 \<and>
   issued (training_step True k (script_setup True)) = [BroadcastState, AllReduceLoss] \<and>
   model (script_setup True) = Compiled GPT_module \<and>
   raw_model (script_setup True) = model (script_setup True) \<and>
   count_list
     (issued (training_step True (Suc k)
        ((script_setup True)\<lparr>model := DDP (model (script_setup True))\<rparr>)))
     AllReduceGradients = 1 \<and>
   issued (micro_step True (Suc k) 0
        ((script_setup True)\<lparr>model := DDP (model (script_setup True))\<rparr>))
     = [BroadcastState, AllReduceGradients]"
proof -
  let ?s = "script_setup True"
  let ?w = "?s\<lparr>model := DDP (model ?s)\<rparr>"
  have s: "model ?s = Compiled GPT_module" "raw_model ?s = model ?s"
    "issued ?s = [BroadcastState]"
    by (simp_all add: script_setup_def DDP_construct_def Let_def)
  have i: "issued (training_step True k ?s) = [BroadcastState, AllReduceLoss]"
    using no_sync_without_wrapper[OF s(1), of True k "[0..<k]"] s(3)
    by (simp add: training_step_def Let_def)
  have w: "model ?w = DDP (model ?s)" "require_backward_grad_sync ?w"
    "issued ?w = [BroadcastState]"
    by (simp_all add: script_setup_def DDP_construct_def Let_def)
  have f: "issued (micro_step True (Suc k) 0 ?w) = [BroadcastState, AllReduceGradients]"
    using wrapped_sync_first(1)[OF w(1,2), of k] w(3) by simp
  have "issued (fold (micro_step True (Suc k)) [0..<Suc k] ?w)
      = [BroadcastState, AllReduceGradients]"
    using wrapped_sync_first(2)[OF w(1,2), of k] w(3) by simp
  then have a: "issued (training_step True (Suc k) ?w)
      = [BroadcastState, AllReduceGradients, AllReduceLoss]"
    by (simp add: training_step_def Let_def del: upt_Suc)
  have c: "count_list (issued (training_step True (Suc k) ?w)) AllReduceGradients = 1"
    unfolding a by simp
  have z: "count_list (issued (training_step True k ?s)) AllReduceGradients = 0"
    unfolding i by simp
  show ?thesis
    by (intro conjI) (fact z i s(1) s(2) c f)+
qed

section \<open>Gradient accumulation\<close>

lemma collect_append:
  "collect rs1 = Inr a \<Longrightarrow> collect rs2 = Inr b \<Longrightarrow> collect (rs1 @ rs2) = Inr (a @ b)"
  by (induction rs1 arbitrary: a rule: collect.induct) (auto split: sum.splits)

lemma GPT_forward_Inr:
  "GPT_forward g x = Inr lg \<longleftrightarrow>
     dim1 x \<le> block_size (config g) \<and> collect (map (GPT_forward_seq g) (rows x)) = Inr lg"
  by (simp add: GPT_forward_def)

lemma collect_cat:
  assumes "list_all2 (\<lambda>x lg. collect (map f (rows x)) = Inr lg) xs lgs"
  shows "collect (map f (concat (map rows xs))) = Inr (concat lgs)"
  using assms by (induction rule: list_all2_induct) (simp_all add: collect_append)

lemma GPT_forward_cat0:
  assumes "list_all2 (\<lambda>x lg. GPT_forward g x = Inr lg) xs lgs" "xs \<noteq> []"
  shows "GPT_forward g (cat0 xs) = Inr (concat lgs)"
proof -
  have "list_all2 (\<lambda>x lg. collect (map (GPT_forward_seq g) (rows x)) = Inr lg) xs lgs"
    using assms(1) by (rule list_all2_mono) (simp add: GPT_forward_Inr)
  then have c: "collect (map (GPT_forward_seq g) (concat (map rows xs))) = Inr (concat lgs)"
    by (rule collect_cat)
  obtain x xs' where xs: "xs = x # xs'" using assms(2) by (cases xs) auto
  then obtain lg lgs' where "lgs = lg # lgs'" "GPT_forward g x = Inr lg"
    using assms(1) by (auto simp: list_all2_Cons1)
  then have "dim1 (hd xs) \<le> block_size (config g)" using xs by (simp add: GPT_forward_Inr)
  then show ?thesis using c by (simp add: GPT_forward_Inr cat0_def)
qed

lemma sum_list_divide:
  "sum_list (map (\<lambda>x. f x / c) xs) = sum_list (map f xs) / (c::real)"
  by (induction xs) (simp_all add: add_divide_distrib)

lemma filter_all: "\<forall>x\<in>set xs. P x \<Longrightarrow> filter P xs = xs"
  by (induction xs) simp_all

lemma mean_nll_kept:
  assumes "\<not> list_ex bad_target ps" "\<forall>(x, t)\<in>set ps. 0 \<le> t"
  shows "mean_nll ps = Inr (sum_list (map (\<lambda>(x, t). nll x t) ps) / real (length ps))"
proof -
  have "filter (\<lambda>(x, t). t \<noteq> - 100) ps = ps"
    using assms(2) by (intro filter_all) auto
  then show ?thesis using assms(1) by (simp add: mean_nll_def)
qed

lemma mean_nll_Inr: "mean_nll ps = Inr l \<Longrightarrow> \<not> list_ex bad_target ps"
  by (auto simp: mean_nll_def split: if_splits)

lemma mean_nll_concat:
  assumes "\<forall>ps\<in>set pss. \<not> list_ex bad_target ps \<and> (\<forall>(x, t)\<in>set ps. 0 \<le> t) \<and> length ps = n"
    and "0 < n" "pss \<noteq> []"
  shows "mean_nll (concat pss) =
     Inr (sum_list (map (\<lambda>ps. sum_list (map (\<lambda>(x, t). nll x t) ps) / real n) pss)
          / real (length pss))"
proof -
  have bad: "\<not> list_ex bad_target (concat pss)"
    using assms(1) by (auto simp: list_ex_iff)
  have nonneg: "\<forall>(x, t)\<in>set (concat pss). 0 \<le> t"
    using assms(1) by fastforce
  have len: "length (concat pss) = n * length pss"
    using assms(1) by (induction pss) simp_all
  have "sum_list (map (\<lambda>(x, t). nll x t) (concat pss))
      = sum_list (map (\<lambda>ps. sum_list (map (\<lambda>(x, t). nll x t) ps)) pss)"
    by (induction pss) simp_all
  then have "sum_list (map (\<lambda>(x, t). nll x t) (concat pss)) / real (length (concat pss))
      = sum_list (map (\<lambda>ps. sum_list (map (\<lambda>(x, t). nll x t) ps)) pss) / (real n * real (length pss))"
    by (simp add: len)
  also have "\<dots> = sum_list (map (\<lambda>ps. sum_list (map (\<lambda>(x, t). nll x t) ps) / real n) pss)
          / real (length pss)"
    by (simp add: sum_list_divide)
  finally show ?thesis using mean_nll_kept[OF bad nonneg] by simp
qed


lemma length_concat_const:
  "\<forall>r\<in>set rs. length r = t \<Longrightarrow> length (concat rs) = length rs * t"
  by (induction rs) simp_all

lemma length_concat_rows:
  "tensor_ok y \<Longrightarrow> length (concat (rows y)) = dim0 y * dim1 y"
  using length_concat_const[of "rows y" "dim1 y"] by (simp add: tensor_ok_def list_all_iff)

lemma GPT_forward_loss_Inr:
  "GPT_forward_loss g x y = Inr r \<longleftrightarrow>
     GPT_forward g x = Inr (fst r) \<and>
     length (concat (fst r)) = length (concat (rows y)) \<and>
     mean_nll (zip (concat (fst r)) (concat (rows y))) = Inr (snd r)"
  by (cases r) (auto simp: GPT_forward_loss_def cross_entropy_def split: sum.splits if_splits)

lemma cat_zip:
  assumes "list_all2 (\<lambda>bq r. length (concat (fst r)) = length (concat (rows (snd bq)))) bs rs"
  shows "length (concat (concat (map fst rs))) = length (concat (concat (map (\<lambda>bq. rows (snd bq)) bs))) \<and>
     zip (concat (concat (map fst rs))) (concat (concat (map (\<lambda>bq. rows (snd bq)) bs)))
       = concat (map2 (\<lambda>bq r. zip (concat (fst r)) (concat (rows (snd bq)))) bs rs)"
  using assms by (induction rule: list_all2_induct) simp_all

lemma loss_of_stacked_batches:
  assumes R: "list_all2 (\<lambda>bq r. GPT_forward_loss g (fst bq) (snd bq) = Inr r) bs rs"
    and ok: "\<forall>bq\<in>set bs. micro_batch_ok b t bq"
    and ne: "bs \<noteq> []" and pos: "0 < b * t"
  shows "GPT_forward_loss g (cat0 (map fst bs)) (cat0 (map snd bs)) =
     Inr (concat (map fst rs), sum_list (map snd rs) / real (length bs))"
proof -
  let ?P = "\<lambda>bq r. zip (concat (fst r)) (concat (rows (snd bq)))"
  let ?pss = "map2 ?P bs rs"
  let ?S = "\<lambda>ps. sum_list (map (\<lambda>(x, t). nll x t) ps)"
  have len: "length bs = length rs" using R by (rule list_all2_lengthD)
  have each: "GPT_forward g (fst bq) = Inr (fst r) \<and>
      length (concat (fst r)) = length (concat (rows (snd bq))) \<and>
      mean_nll (?P bq r) = Inr (snd r) \<and> micro_batch_ok b t bq"
    if "(bq, r) \<in> set (zip bs rs)" for bq r
  proof -
    have "GPT_forward_loss g (fst bq) (snd bq) = Inr r"
      using R that by (auto simp: list_all2_iff)
    moreover have "bq \<in> set bs" using that by (rule set_zip_leftD)
    ultimately show ?thesis using ok by (simp add: GPT_forward_loss_Inr)
  qed
  have fw: "list_all2 (\<lambda>x lg. GPT_forward g x = Inr lg) (map fst bs) (map fst rs)"
    using each len by (auto simp: list_all2_iff zip_map_map)
  have forward: "GPT_forward g (cat0 (map fst bs)) = Inr (concat (map fst rs))"
    using GPT_forward_cat0[OF fw] ne by simp
  have "list_all2 (\<lambda>bq r. length (concat (fst r)) = length (concat (rows (snd bq)))) bs rs"
    using each len by (auto simp: list_all2_iff)
  note z = cat_zip[OF this]
  have rows_cat: "rows (cat0 (map snd bs)) = concat (map (\<lambda>bq. rows (snd bq)) bs)"
    by (simp add: cat0_def comp_def)
  have props: "\<forall>ps\<in>set ?pss. \<not> list_ex bad_target ps \<and> (\<forall>(x, t)\<in>set ps. 0 \<le> t) \<and>
      length ps = b * t"
  proof
    fix ps assume "ps \<in> set ?pss"
    then obtain bq r where br: "(bq, r) \<in> set (zip bs rs)" and ps: "ps = ?P bq r" by auto
    note e = each[OF br]
    have y: "tensor_ok (snd bq)" "dim0 (snd bq) = b" "dim1 (snd bq) = t"
      "list_all (list_all (\<lambda>tok. 0 \<le> tok)) (rows (snd bq))"
      using e by (simp_all add: micro_batch_ok_def case_prod_unfold)
    have "length ps = b * t"
      using e y length_concat_rows[OF y(1)] by (simp add: ps)
    moreover have "\<not> list_ex bad_target ps"
      using e mean_nll_Inr by (simp add: ps)
    moreover have "\<forall>(x, t)\<in>set ps. 0 \<le> t"
    proof -
      have "\<forall>tok\<in>set (concat (rows (snd bq))). 0 \<le> tok"
        using y(4) by (auto simp: list_all_iff)
      moreover have "tok \<in> set (concat (rows (snd bq)))" if "(x, tok) \<in> set ps" for x tok
        using that unfolding ps by (rule set_zip_rightD)
      ultimately show ?thesis by blast
    qed
    ultimately show "\<not> list_ex bad_target ps \<and> (\<forall>(x, t)\<in>set ps. 0 \<le> t) \<and> length ps = b * t"
      by simp
  qed
  have pss_ne: "?pss \<noteq> []" using ne len by (cases bs; cases rs) simp_all
  have mean: "mean_nll (concat ?pss) =
      Inr (sum_list (map (\<lambda>ps. ?S ps / real (b * t)) ?pss) / real (length ?pss))"
    by (rule mean_nll_concat[OF props pos pss_ne])
  have "map (\<lambda>ps. ?S ps / real (b * t)) ?pss = map snd rs"
  proof -
    have "(\<lambda>ps. ?S ps / real (b * t)) (?P bq r) = snd r" if "(bq, r) \<in> set (zip bs rs)" for bq r
    proof -
      have p: "?P bq r \<in> set ?pss" using that by force
      then have "mean_nll (?P bq r) = Inr (?S (?P bq r) / real (length (?P bq r)))"
        using props by (intro mean_nll_kept) blast+
      moreover have "length (?P bq r) = b * t" using props p by blast
      ultimately show ?thesis using each[OF that] by simp
    qed
    then have "map (\<lambda>ps. ?S ps / real (b * t)) ?pss = map (\<lambda>(bq, r). snd r) (zip bs rs)"
      by auto
    also have "\<dots> = map snd (map snd (zip bs rs))" by (simp add: case_prod_unfold)
    also have "\<dots> = map snd rs" using len by simp
    finally show ?thesis .
  qed
  then have "mean_nll (concat ?pss) = Inr (sum_list (map snd rs) / real (length bs))"
    using mean len by simp
  then show ?thesis
    using forward z by (simp add: GPT_forward_loss_def cross_entropy_def rows_cat)
qed


lemma DERIV_sum_list:
  assumes "\<forall>j\<in>set js. ((f j) has_real_derivative d j) (at x)"
  shows "((\<lambda>s. sum_list (map (\<lambda>j. f j s) js)) has_real_derivative sum_list (map d js)) (at x)"
  using assms by (induction js) (auto intro!: derivative_eq_intros)

lemma GPT_forward_loss_returns:
  assumes sh: "GPT_shape g" and x: "tensor_ok x" "dim1 x \<le> block_size (config g)"
      "tokens_in_vocab g x"
    and y: "tensor_ok y" "dim0 y = dim0 x" "dim1 y = dim1 x" "tokens_in_vocab g y"
  shows "\<exists>r. GPT_forward_loss g x y = Inr r"
proof -
  obtain ls where ls: "GPT_forward g x = Inr ls"
    "logits_shape (dim0 x) (dim1 x) (vocab_size (config g)) ls"
    using GPT_forward_returns[OF sh x] by blast
  have "\<forall>s\<in>set ls. length s = dim1 x"
    using ls(2) by (auto simp: logits_shape_def list_all_iff)
  then have "length (concat ls) = length ls * dim1 x" by (rule length_concat_const)
  then have len: "length (concat ls) = length (concat (rows y))"
    using ls(2) y(1-3) length_concat_rows[OF y(1)] by (simp add: logits_shape_def)
  have width: "length v = vocab_size (config g)" if "v \<in> set (concat ls)" for v
    using that ls(2) by (auto simp: logits_shape_def list_all_iff)
  have tok: "0 \<le> tk \<and> tk < int (vocab_size (config g))" if "tk \<in> set (concat (rows y))" for tk
    using that y(4) by (auto simp: tokens_in_vocab_def list_all_iff)
  have "\<not> bad_target p" if "p \<in> set (zip (concat ls) (concat (rows y)))" for p
  proof -
    obtain v tk where p: "p = (v, tk)" by (cases p)
    have "v \<in> set (concat ls)" "tk \<in> set (concat (rows y))"
      using that unfolding p by (rule set_zip_leftD, rule set_zip_rightD)
    then show ?thesis using width tok by (simp add: p bad_target_def)
  qed
  then have "\<not> list_ex bad_target (zip (concat ls) (concat (rows y)))"
    by (auto simp: list_ex_iff)
  then obtain l where "mean_nll (zip (concat ls) (concat (rows y))) = Inr l"
    by (simp add: mean_nll_def Let_def)
  then have "GPT_forward_loss g x y = Inr (ls, l)"
    using ls(1) len by (simp add: GPT_forward_loss_Inr)
  then show ?thesis by blast
qed

lemma vadd_assoc: "vadd (vadd a b) c = vadd a (vadd b c)"
proof (induction a arbitrary: b c)
  case Nil
  then show ?case by (simp add: vadd_def)
next
  case (Cons x a)
  show ?case
  proof (cases b)
    case Nil
    then show ?thesis by (simp add: vadd_def)
  next
    case b: (Cons y b')
    show ?thesis
    proof (cases c)
      case Nil
      then show ?thesis by (simp add: vadd_def)
    next
      case (Cons z c')
      then show ?thesis using Cons.IH[of b' c'] b by (simp add: vadd_def)
    qed
  qed
qed

lemma length_vadd: "length (vadd a b) = min (length a) (length b)"
  by (simp add: vadd_def)

lemma nth_vadd: "i < length a \<Longrightarrow> i < length b \<Longrightarrow> vadd a b ! i = a ! i + b ! i"
  by (simp add: vadd_def)

lemma data_accumulate: "data (accumulate a g hp) = data hp"
  by (simp add: accumulate_def)

lemma data_fold_accumulate: "data (fold (\<lambda>(b, g). accumulate b g) cs hp) = data hp"
  by (induction cs arbitrary: hp) (auto simp: data_accumulate)

lemma data_ZeroGrad: "data (run_op m ZeroGrad hp) = data hp"
proof -
  have "data (fold (\<lambda>a hp'. hp'\<lparr>grad := (grad hp')(a := None)\<rparr>) as hp) = data hp" for as
    by (induction as arbitrary: hp) simp_all
  then show ?thesis by simp
qed

lemma data_Backward: "data (run_op m (Backward gh ge os) hp) = data hp"
  by (simp add: data_fold_accumulate data_accumulate)

lemma grad_fold_accumulate:
  "grad (fold (\<lambda>(b, g). accumulate b g) cs hp) a = received cs a (grad hp a)"
  by (induction cs arbitrary: hp) (auto simp: received_def accumulate_def)

lemma grad_Backward:
  "grad (run_op m (Backward gh ge os) hp) a
     = received ((lm_head_weight m, gh) # (wte_weight m, ge) # os) a (grad hp a)"
proof -
  have "run_op m (Backward gh ge os) hp
      = fold (\<lambda>(b, g). accumulate b g) ((lm_head_weight m, gh) # (wte_weight m, ge) # os) hp"
    by simp
  then show ?thesis by (simp only: grad_fold_accumulate)
qed

lemma received_Some:
  "received cs a (Some g0)
     = (case received cs a None of None \<Rightarrow> Some g0 | Some c \<Rightarrow> Some (vadd g0 c))"
proof (induction cs arbitrary: g0)
  case Nil
  then show ?case by (simp add: received_def)
next
  case (Cons p cs)
  obtain b g where p: "p = (b, g)" by (cases p)
  have step: "received (p # cs) a G
      = received cs a (if b = a then Some (case G of None \<Rightarrow> g | Some g0 \<Rightarrow> vadd g0 g) else G)" for G
    by (simp add: received_def p)
  show ?case
  proof (cases "b = a")
    case True
    show ?thesis
      unfolding step using True
      by (simp add: Cons.IH[of "vadd g0 g"] Cons.IH[of g] vadd_assoc split: option.splits)
  next
    case False
    then show ?thesis unfolding step by (simp add: Cons.IH)
  qed
qed


lemma grad_ZeroGrad: "a \<in> set (parameters m) \<Longrightarrow> grad (run_op m ZeroGrad hp) a = None"
  by (simp add: grad_fold_clear)

lemma backward_adds:
  assumes "grad (run_op m (Backward gh ge os) (run_op m ZeroGrad hp)) a = Some g"
    and "a \<in> set (parameters m)"
  shows "grad (run_op m (Backward gh ge os) hp') a
       = Some (case grad hp' a of None \<Rightarrow> g | Some g0 \<Rightarrow> vadd g0 g)"
proof -
  let ?cs = "(lm_head_weight m, gh) # (wte_weight m, ge) # os"
  have r: "received ?cs a None = Some g"
    using assms by (simp only: grad_Backward grad_ZeroGrad)
  show ?thesis
  proof (cases "grad hp' a")
    case None
    then show ?thesis using r by (simp only: grad_Backward) simp
  next
    case (Some g0)
    then show ?thesis using r received_Some[of ?cs a g0] by (simp only: grad_Backward) simp
  qed
qed

lemma grad_fold_backwards:
  assumes "list_all2 (\<lambda>bw g. \<forall>hp'. grad (run_op m bw hp') a
              = Some (case grad hp' a of None \<Rightarrow> g | Some g0 \<Rightarrow> vadd g0 g)) bws gs"
  shows "grad (fold (run_op m) bws hp) a = accumulated gs (grad hp a)"
  using assms
proof (induction arbitrary: hp rule: list_all2_induct)
  case Nil
  then show ?case by (simp add: accumulated_def)
next
  case (Cons bw bws g gs)
  have "grad (fold (run_op m) bws (run_op m bw hp)) a = accumulated gs (grad (run_op m bw hp) a)"
    by (rule Cons.IH)
  then show ?case using Cons.hyps(1) by (simp add: accumulated_def)
qed

lemma accumulated_nth:
  assumes "\<forall>g\<in>set gs. length g = n"
    and "case G of None \<Rightarrow> gs \<noteq> [] | Some g0 \<Rightarrow> length g0 = n"
  shows "\<exists>S. accumulated gs G = Some S \<and> length S = n \<and>
     (\<forall>i<n. S ! i = (case G of None \<Rightarrow> 0 | Some g0 \<Rightarrow> g0 ! i) + sum_list (map (\<lambda>g. g ! i) gs))"
  using assms
proof (induction gs arbitrary: G)
  case Nil
  then show ?case by (cases G) (simp_all add: accumulated_def)
next
  case (Cons g gs)
  let ?G' = "Some (case G of None \<Rightarrow> g | Some g0 \<Rightarrow> vadd g0 g)"
  have step: "accumulated (g # gs) G = accumulated gs ?G'"
    by (simp add: accumulated_def)
  have g: "length g = n" using Cons.prems(1) by simp
  have len: "case ?G' of None \<Rightarrow> gs \<noteq> [] | Some g0 \<Rightarrow> length g0 = n"
    using Cons.prems(2) g by (cases G) (simp_all add: length_vadd)
  obtain S where S: "accumulated gs ?G' = Some S" "length S = n"
    "\<forall>i<n. S ! i = (case ?G' of None \<Rightarrow> 0 | Some g0 \<Rightarrow> g0 ! i) + sum_list (map (\<lambda>g. g ! i) gs)"
    using Cons.IH[of ?G'] Cons.prems(1) len by auto
  have "S ! i = (case G of None \<Rightarrow> 0 | Some g0 \<Rightarrow> g0 ! i) + sum_list (map (\<lambda>g. g ! i) (g # gs))"
    if "i < n" for i
    using S(3) that g Cons.prems(2) by (cases G) (simp_all add: nth_vadd)
  then show ?case using S(1,2) step by simp
qed


lemma data_fold_backwards:
  assumes "\<forall>bw\<in>set bws. \<exists>gh ge os. bw = Backward gh ge os"
  shows "data (fold (run_op m) bws hp) = data hp"
  using assms
proof (induction bws arbitrary: hp)
  case Nil
  then show ?case by simp
next
  case (Cons bw bws)
  then obtain gh ge os where "bw = Backward gh ge os" by auto
  then have "data (run_op m bw hp) = data hp" by (simp only: data_Backward)
  then show ?case using Cons by simp
qed

lemma fold_step_cong:
  assumes "\<forall>a\<in>A. data h1 a = data h2 a \<and> grad h1 a = grad h2 a" "set as \<subseteq> A"
  shows "\<forall>a\<in>A. data (fold (step_param upd) as h1) a = data (fold (step_param upd) as h2) a"
  using assms
proof (induction as arbitrary: h1 h2)
  case Nil
  then show ?case by simp
next
  case (Cons b as)
  have b: "b \<in> A" using Cons.prems(2) by simp
  have "\<forall>a\<in>A. data (step_param upd b h1) a = data (step_param upd b h2) a \<and>
      grad (step_param upd b h1) a = grad (step_param upd b h2) a"
    using Cons.prems(1) b by (auto simp: step_param_def split: option.splits)
  then show ?case using Cons.IH[of "step_param upd b h1" "step_param upd b h2"] Cons.prems(2)
    by simp
qed

lemma clip_cong:
  assumes "\<forall>a\<in>set (parameters m). grad h1 a = grad h2 a"
  shows "\<forall>a\<in>set (parameters m). grad (clip_grad_norm m c h1) a = grad (clip_grad_norm m c h2) a"
proof -
  have "map (\<lambda>a. case grad h1 a of None \<Rightarrow> 0 | Some g \<Rightarrow> sum_list (map (\<lambda>x. x\<^sup>2) g)) (parameters m)
      = map (\<lambda>a. case grad h2 a of None \<Rightarrow> 0 | Some g \<Rightarrow> sum_list (map (\<lambda>x. x\<^sup>2) g)) (parameters m)"
    by (rule map_cong[OF refl]) (simp add: assms)
  then have "total_norm m h1 = total_norm m h2" by (simp only: total_norm_def)
  then show ?thesis using assms by (simp add: clip_grad_norm_def Let_def)
qed

lemma data_clip: "data (clip_grad_norm m c hp) = data hp"
  by (simp add: clip_grad_norm_def Let_def)

lemma window_cong:
  assumes "\<forall>a\<in>set (parameters m). grad h1 a = grad h2 a" "data h1 = data h2"
  shows "\<forall>a\<in>set (parameters m).
     data (run_op m (OptimizerStep upd) (clip_grad_norm m c h1)) a
       = data (run_op m (OptimizerStep upd) (clip_grad_norm m c h2)) a"
proof -
  have "\<forall>a\<in>set (parameters m).
      data (clip_grad_norm m c h1) a = data (clip_grad_norm m c h2) a \<and>
      grad (clip_grad_norm m c h1) a = grad (clip_grad_norm m c h2) a"
    using clip_cong[OF assms(1)] assms(2) by (simp add: data_clip)
  from fold_step_cong[OF this subset_refl] show ?thesis by simp
qed


lemma stacked_loss_value:
  assumes k: "length bs = k" "1 \<le> k"
    and ok: "\<forall>bq\<in>set bs. micro_batch_ok b t bq" and pos: "0 < b * t"
    and run: "\<forall>bq\<in>set bs. \<exists>r. GPT_forward_loss g (fst bq) (snd bq) = Inr r"
  shows "(\<exists>r. GPT_forward_loss g (cat0 (map fst bs)) (cat0 (map snd bs)) = Inr r) \<and>
     loss_value (GPT_forward_loss g (cat0 (map fst bs)) (cat0 (map snd bs)))
       = sum_list (map (\<lambda>j. micro_loss k
            (loss_value (GPT_forward_loss g (fst (bs ! j)) (snd (bs ! j))))) [0..<k])"
proof -
  let ?f = "\<lambda>bq. GPT_forward_loss g (fst bq) (snd bq)"
  let ?rs = "map (\<lambda>bq. projr (?f bq)) bs"
  have ne: "bs \<noteq> []" using k by auto
  have r: "?f bq = Inr (projr (?f bq))" if "bq \<in> set bs" for bq
    using run that by force
  have "list_all2 (\<lambda>bq r. ?f bq = Inr r) bs ?rs"
    using r by (simp add: list_all2_conv_all_nth)
  from loss_of_stacked_batches[OF this ok ne pos]
  have big: "GPT_forward_loss g (cat0 (map fst bs)) (cat0 (map snd bs))
      = Inr (concat (map fst ?rs), sum_list (map snd ?rs) / real k)"
    by (simp add: k(1))
  have "map snd ?rs = map (\<lambda>j. loss_value (?f (bs ! j))) [0..<k]"
  proof (rule nth_equalityI)
    show "length (map snd ?rs) = length (map (\<lambda>j. loss_value (?f (bs ! j))) [0..<k])"
      by (simp add: k(1))
    fix i assume "i < length (map snd ?rs)"
    then have i: "i < length bs" by simp
    then have "?f (bs ! i) = Inr (projr (?f (bs ! i)))" by (intro r) simp
    then have "loss_value (?f (bs ! i)) = loss_value (Inr (projr (?f (bs ! i))))"
      by (rule arg_cong)
    then have "loss_value (?f (bs ! i)) = snd (projr (?f (bs ! i)))"
      by (simp add: loss_value_def case_prod_unfold)
    then show "map snd ?rs ! i = map (\<lambda>j. loss_value (?f (bs ! j))) [0..<k] ! i"
      using i k(1) by simp
  qed
  then have "sum_list (map snd ?rs) / real k
      = sum_list (map (\<lambda>j. micro_loss k (loss_value (?f (bs ! j)))) [0..<k])"
    by (simp add: micro_loss_def sum_list_divide comp_def)
  then show ?thesis using big by (simp add: loss_value_def)
qed


lemma backward_ofD:
  assumes "backward_of m hp f bw" "a \<in> set (parameters m)"
  obtains v g where "data hp a = Some v"
    and "grad (run_op m bw (run_op m ZeroGrad hp)) a = Some g"
    and "length g = length v"
    and "\<And>i. i < length v \<Longrightarrow>
           ((\<lambda>s. f ((data hp)(a \<mapsto> v[i := s]))) has_real_derivative g ! i) (at (v ! i))"
  using assms unfolding backward_of_def by blast

lemma backward_of_form:
  "backward_of m hp f bw \<Longrightarrow> \<exists>gh ge os. bw = Backward gh ge os"
  unfolding backward_of_def by blast

text \<open>
  Claim C3. A window of \<open>k \<ge> 1\<close> micro-batches of shape \<open>[b, t]\<close> whose targets are token
  ids, and a model \<open>gp d\<close> read from the parameter values \<open>d\<close> whose forward pass returns on
  every micro-batch. Let the backward pass of micro-step \<open>j\<close> be that of its scaled loss
  \<^verbatim>\<open>loss / grad_accum_steps\<close>, and \<open>bw\<close> that of the mean cross-entropy loss of one forward
  pass over the stacked batch of \<open>k * b\<close> sequences, both at the parameter values of the
  heap \<open>hp\<close>. Then the forward pass on the stacked batch returns and its loss is the sum of
  the scaled losses of the micro-steps; after \<^verbatim>\<open>zero_grad\<close> and the \<open>k\<close> backward passes, each
  adding to the \<^verbatim>\<open>.grad\<close> the ones before it left, every parameter holds the gradient that
  \<^verbatim>\<open>zero_grad\<close> and the single backward pass over the stacked batch leave; and the training
  step of lines 338 to 357 (\<^verbatim>\<open>zero_grad\<close>, the backward passes, the clipping of the gradient
  norm, one \<^verbatim>\<open>optimizer.step\<close>, with any update rule \<open>upd\<close>) gives every parameter the value
  that the same step with the single backward pass over the stacked batch gives it. The
  arithmetic is that of the reals, in which the two updates are equal; the rounding of
  floating-point numbers, up to which the spec states the equality, is not part of it.
\<close>

theorem accumulation_equivalence:
  fixes gp :: "(addr \<rightharpoonup> tensor) \<Rightarrow> GPT" and bs :: "(LongTensor2 \<times> LongTensor2) list"
  assumes k: "length bs = k" "1 \<le> k"
    and ok: "\<forall>bq\<in>set bs. micro_batch_ok b t bq" and pos: "0 < b * t"
    and run: "\<forall>d. \<forall>bq\<in>set bs. \<exists>r. GPT_forward_loss (gp d) (fst bq) (snd bq) = Inr r"
    and micro: "length bws = k"
      "\<forall>j<k. backward_of m hp
         (\<lambda>d. micro_loss k (loss_value (GPT_forward_loss (gp d) (fst (bs ! j)) (snd (bs ! j)))))
         (bws ! j)"
    and big: "backward_of m hp
         (\<lambda>d. loss_value (GPT_forward_loss (gp d) (cat0 (map fst bs)) (cat0 (map snd bs)))) bw"
  shows "(\<forall>d. \<exists>r. GPT_forward_loss (gp d) (cat0 (map fst bs)) (cat0 (map snd bs)) = Inr r) \<and>
     (\<forall>d. loss_value (GPT_forward_loss (gp d) (cat0 (map fst bs)) (cat0 (map snd bs)))
          = sum_list (map (\<lambda>j. micro_loss k
              (loss_value (GPT_forward_loss (gp d) (fst (bs ! j)) (snd (bs ! j))))) [0..<k])) \<and>
     (\<forall>a\<in>set (parameters m).
          grad (run_train m (ZeroGrad # bws) hp) a = grad (run_train m [ZeroGrad, bw] hp) a \<and>
          data (train_window m upd bws hp) a = data (train_window m upd [bw] hp) a)"
proof -
  let ?F = "\<lambda>j d. micro_loss k (loss_value (GPT_forward_loss (gp d) (fst (bs ! j)) (snd (bs ! j))))"
  let ?Fbig = "\<lambda>d. loss_value (GPT_forward_loss (gp d) (cat0 (map fst bs)) (cat0 (map snd bs)))"
  let ?H1 = "run_train m (ZeroGrad # bws) hp" and ?H2 = "run_train m [ZeroGrad, bw] hp"
  have A: "(\<exists>r. GPT_forward_loss (gp d) (cat0 (map fst bs)) (cat0 (map snd bs)) = Inr r) \<and>
      ?Fbig d = sum_list (map (\<lambda>j. ?F j d) [0..<k])" for d
    using stacked_loss_value[OF k ok pos] run by blast
  have forms: "\<forall>x\<in>set bws. \<exists>gh ge os. x = Backward gh ge os"
  proof
    fix x assume "x \<in> set bws"
    then obtain j where "j < k" "x = bws ! j" using micro(1) by (auto simp: in_set_conv_nth)
    then show "\<exists>gh ge os. x = Backward gh ge os"
      using micro(2) backward_of_form by blast
  qed
  obtain gh ge os where bw: "bw = Backward gh ge os"
    using backward_of_form[OF big] by blast
  have H1: "?H1 = fold (run_op m) bws (run_op m ZeroGrad hp)"
    and H2: "?H2 = run_op m bw (run_op m ZeroGrad hp)"
    by (simp_all add: run_train_def)
  have grads: "grad ?H1 a = grad ?H2 a" if a: "a \<in> set (parameters m)" for a
  proof -
    obtain v G where v: "data hp a = Some v"
      and G: "grad (run_op m bw (run_op m ZeroGrad hp)) a = Some G" "length G = length v"
      and dG: "\<And>i. i < length v \<Longrightarrow>
          ((\<lambda>s. ?Fbig ((data hp)(a \<mapsto> v[i := s]))) has_real_derivative G ! i) (at (v ! i))"
      using backward_ofD[OF big a] by blast
    define gf where "gf j = the (grad (run_op m (bws ! j) (run_op m ZeroGrad hp)) a)" for j
    have gf: "grad (run_op m (bws ! j) (run_op m ZeroGrad hp)) a = Some (gf j) \<and>
        length (gf j) = length v \<and>
        (\<forall>i<length v. ((\<lambda>s. ?F j ((data hp)(a \<mapsto> v[i := s]))) has_real_derivative gf j ! i)
                 (at (v ! i)))" if "j < k" for j
    proof -
      have b: "backward_of m hp (?F j) (bws ! j)" using micro(2) that by blast
      obtain v' g where v': "data hp a = Some v'"
        and g: "grad (run_op m (bws ! j) (run_op m ZeroGrad hp)) a = Some g" "length g = length v'"
        and dg: "\<And>i. i < length v' \<Longrightarrow>
          ((\<lambda>s. ?F j ((data hp)(a \<mapsto> v'[i := s]))) has_real_derivative g ! i) (at (v' ! i))"
        using backward_ofD[OF b a] by blast
      have "v' = v" using v v' by simp
      moreover have "gf j = g" using g(1) by (simp add: gf_def)
      ultimately show ?thesis using g dg by simp
    qed
    let ?gs = "map gf [0..<k]"
    have adds: "\<forall>hp'. grad (run_op m (bws ! j) hp') a
        = Some (case grad hp' a of None \<Rightarrow> gf j | Some g0 \<Rightarrow> vadd g0 (gf j))" if "j < k" for j
    proof -
      have "bws ! j \<in> set bws" using that micro(1) by simp
      then obtain gh' ge' os' where f: "bws ! j = Backward gh' ge' os'"
        using forms by blast
      show ?thesis
      proof (intro allI)
        fix hp'
        have "grad (run_op m (Backward gh' ge' os') (run_op m ZeroGrad hp)) a = Some (gf j)"
          using gf[OF that] by (simp only: f)
        from backward_adds[OF this a]
        show "grad (run_op m (bws ! j) hp') a
            = Some (case grad hp' a of None \<Rightarrow> gf j | Some g0 \<Rightarrow> vadd g0 (gf j))"
          by (simp only: f)
      qed
    qed
    have "list_all2 (\<lambda>x g. \<forall>hp'. grad (run_op m x hp') a
              = Some (case grad hp' a of None \<Rightarrow> g | Some g0 \<Rightarrow> vadd g0 g)) bws ?gs"
      unfolding list_all2_conv_all_nth
    proof (intro conjI allI impI)
      show "length bws = length ?gs" using micro(1) by simp
      fix j hp' assume "j < length bws"
      then have j: "j < k" using micro(1) by simp
      then have nth: "?gs ! j = gf j" by simp
      show "grad (run_op m (bws ! j) hp') a
          = Some (case grad hp' a of None \<Rightarrow> ?gs ! j | Some g0 \<Rightarrow> vadd g0 (?gs ! j))"
        unfolding nth using adds[OF j] by blast
    qed
    then have "grad ?H1 a = accumulated ?gs (grad (run_op m ZeroGrad hp) a)"
      unfolding H1 by (rule grad_fold_backwards)
    then have acc: "grad ?H1 a = accumulated ?gs None"
      using a by (simp only: grad_ZeroGrad)
    have G2: "grad ?H2 a = Some G" using G(1) by (simp only: H2)
    have lens: "\<forall>g\<in>set ?gs. length g = length v" using gf by auto
    have nonempty: "case None :: tensor option of None \<Rightarrow> ?gs \<noteq> [] | Some g0 \<Rightarrow> length g0 = length v"
      using k(2) by simp
    obtain S where S: "accumulated ?gs None = Some S" "length S = length v"
      "\<forall>i<length v. S ! i = (case None :: tensor option of None \<Rightarrow> 0 | Some g0 \<Rightarrow> g0 ! i)
          + sum_list (map (\<lambda>g. g ! i) ?gs)"
      using accumulated_nth[OF lens nonempty] by blast
    have "S ! i = G ! i" if i: "i < length v" for i
    proof -
      let ?d = "\<lambda>s. (data hp)(a \<mapsto> v[i := s])"
      have "((\<lambda>s. sum_list (map (\<lambda>j. ?F j (?d s)) [0..<k])) has_real_derivative
          sum_list (map (\<lambda>j. gf j ! i) [0..<k])) (at (v ! i))"
        using gf i by (intro DERIV_sum_list) simp
      moreover have "?Fbig (?d s) = sum_list (map (\<lambda>j. ?F j (?d s)) [0..<k])" for s
        using A[of "?d s"] by (rule conjunct2)
      ultimately have "((\<lambda>s. ?Fbig (?d s)) has_real_derivative
          sum_list (map (\<lambda>j. gf j ! i) [0..<k])) (at (v ! i))"
        by (simp only:)
      moreover have "((\<lambda>s. ?Fbig (?d s)) has_real_derivative G ! i) (at (v ! i))"
        using dG i by simp
      ultimately have "sum_list (map (\<lambda>j. gf j ! i) [0..<k]) = G ! i"
        by (rule DERIV_unique)
      then show ?thesis using S(3) i by (simp add: comp_def)
    qed
    then have "S = G" using S(2) G(2) by (intro nth_equalityI) simp_all
    then show ?thesis using acc S(1) G2 by simp
  qed
  have d1: "data ?H1 = data hp"
    unfolding H1 by (simp only: data_fold_backwards[OF forms] data_ZeroGrad)
  have "data ?H2 = data (run_op m bw (run_op m ZeroGrad hp))"
    by (simp only: H2)
  also have "\<dots> = data hp"
    by (simp only: bw data_Backward data_ZeroGrad)
  finally have d2: "data ?H2 = data hp" .
  have g12: "\<forall>a\<in>set (parameters m). grad ?H1 a = grad ?H2 a" using grads by blast
  have d12: "data ?H1 = data ?H2" using d1 d2 by simp
  have upd: "\<forall>a\<in>set (parameters m).
      data (train_window m upd bws hp) a = data (train_window m upd [bw] hp) a"
    unfolding train_window_def by (rule window_cong[OF g12 d12])
  have both: "\<forall>a\<in>set (parameters m).
      grad ?H1 a = grad ?H2 a \<and>
      data (train_window m upd bws hp) a = data (train_window m upd [bw] hp) a"
    using g12 upd by blast
  have A1: "\<forall>d. \<exists>r. GPT_forward_loss (gp d) (cat0 (map fst bs)) (cat0 (map snd bs)) = Inr r"
    using A by blast
  have A2: "\<forall>d. ?Fbig d = sum_list (map (\<lambda>j. ?F j d) [0..<k])"
    using A by blast
  show ?thesis
    by (intro conjI) (fact A1 A2 both)+
qed

subsection \<open>A window of two micro-steps on a small model\<close>

lemma small_init_eq:
  "small_init =
     (\<lparr>wte_weight = 4, wpe_weight = 1, h_params = [], ln_f_params = [2, 3], lm_head_weight = 4\<rparr>,
      \<lparr>next_addr = 5,
       data = [0 \<mapsto> [0, 1], 1 \<mapsto> [0], 2 \<mapsto> [1], 3 \<mapsto> [1], 4 \<mapsto> [0, 1]],
       grad = Map.empty\<rparr>)"
  by (simp add: small_init_def GPT_init_refs_def new_param_def empty_heap_def Let_def
      numeral_eq_Suc fun_eq_iff)

lemma small_parameters: "parameters (fst small_init) = [4, 1, 2, 3]"
  by (simp add: small_init_eq parameters_def)

lemma small_forward:
  assumes "tok = 0 \<or> tok = 1" "y = 0 \<or> y = 1"
  shows "GPT_forward_loss (small_GPT d) (token tok) (token y)
     = Inr ([[[entry d 4 0 * entry d 3 0, entry d 4 1 * entry d 3 0]]],
            ln (exp (entry d 4 0 * entry d 3 0) + exp (entry d 4 1 * entry d 3 0))
              - (if y = 0 then entry d 4 0 else entry d 4 1) * entry d 3 0)"
  using assms
  by (auto simp: GPT_forward_loss_def GPT_forward_def GPT_forward_seq_def small_GPT_def
      small_init_eq token_def Embedding_forward_def LayerNorm_forward_def Linear_forward_def
      mean_def vadd_def dot_def cross_entropy_def mean_nll_def bad_target_def nll_def Let_def)

lemma small_heap_data:
  "data (snd small_init) 4 = Some [0, 1]" "data (snd small_init) 1 = Some [0]"
  "data (snd small_init) 2 = Some [1]" "data (snd small_init) 3 = Some [1]"
  "data (snd small_init) (Suc 0) = Some [0]"
  by (simp_all add: small_init_eq)

lemma lse_pos: "0 < exp (x::real) + exp y"
  by (rule add_pos_pos) simp_all

lemma lse_pos1: "0 < 1 + exp (x::real)" "0 < exp x + 1"
  by (rule add_pos_pos; simp)+

lemma small_backward_eq:
  "small_backward p q =
     Backward [(p + q) / (1 + exp 1) - q, (p + q) * exp 1 / (1 + exp 1) - p] [0, 0]
        [(1, [0]), (2, [0]), (3, [(p + q) * exp 1 / (1 + exp 1) - p])]"
  by (simp add: small_backward_def small_init_eq)

lemma small_backward_of:
  fixes p q :: real
  assumes f: "\<And>d. f d = (p + q) * ln (exp (entry d 4 0 * entry d 3 0) + exp (entry d 4 1 * entry d 3 0))
                 - (p * entry d 4 1 + q * entry d 4 0) * entry d 3 0"
  shows "backward_of (fst small_init) (snd small_init) f (small_backward p q)"
  unfolding backward_of_def small_backward_eq
proof (intro conjI ballI)
  let ?m = "fst small_init" and ?hp = "snd small_init"
  let ?bw = "Backward [(p + q) / (1 + exp 1) - q, (p + q) * exp 1 / (1 + exp 1) - p] [0, 0]
        [(1, [0]), (2, [0]), (3, [(p + q) * exp 1 / (1 + exp 1) - p])]"
  show "\<exists>g_head g_emb others. ?bw = Backward g_head g_emb others" by blast
  have g: "grad (run_op ?m ?bw (run_op ?m ZeroGrad ?hp)) a
      = received [(4, [(p + q) / (1 + exp 1) - q, (p + q) * exp 1 / (1 + exp 1) - p]), (4, [0, 0]),
           (1, [0]), (2, [0]), (3, [(p + q) * exp 1 / (1 + exp 1) - p])] a None"
    if "a \<in> set (parameters ?m)" for a
    using that by (simp only: grad_Backward grad_ZeroGrad) (simp add: small_init_eq)
  fix a assume a: "a \<in> set (parameters ?m)"
  then consider "a = 4" | "a = 1" | "a = 2" | "a = 3" by (auto simp: small_parameters)
  then show "\<exists>v g. data ?hp a = Some v \<and>
       grad (run_op ?m ?bw (run_op ?m ZeroGrad ?hp)) a = Some g \<and> length g = length v \<and>
       (\<forall>i<length v. ((\<lambda>s. f ((data ?hp)(a \<mapsto> v[i := s]))) has_real_derivative g ! i) (at (v ! i)))"
  proof cases
    case 1
    have d0: "((\<lambda>s. f ((data ?hp)(4 \<mapsto> [0, 1][0 := s]))) has_real_derivative
        (p + q) / (1 + exp 1) - q) (at 0)"
      unfolding f by (auto intro!: derivative_eq_intros simp: entry_def small_init_eq lse_pos lse_pos1)
    have d1: "((\<lambda>s. f ((data ?hp)(4 \<mapsto> [0, 1][1 := s]))) has_real_derivative
        (p + q) * exp 1 / (1 + exp 1) - p) (at 1)"
      unfolding f by (auto intro!: derivative_eq_intros simp: entry_def small_init_eq lse_pos lse_pos1)
    show ?thesis
      unfolding 1 g[OF a[unfolded 1]]
      using d0 d1 by (simp add: small_heap_data received_def vadd_def less_Suc_eq numeral_2_eq_2)
  next
    case 2
    have d0: "((\<lambda>s. f ((data ?hp)(1 \<mapsto> [0][0 := s]))) has_real_derivative 0) (at 0)"
      unfolding f by (simp add: entry_def small_init_eq)
    show ?thesis
      unfolding 2 g[OF a[unfolded 2]]
      using d0 by (simp add: small_heap_data received_def)
  next
    case 3
    have d0: "((\<lambda>s. f ((data ?hp)(2 \<mapsto> [1][0 := s]))) has_real_derivative 0) (at 1)"
      unfolding f by (simp add: entry_def small_init_eq)
    show ?thesis
      unfolding 3 g[OF a[unfolded 3]]
      using d0 by (simp add: small_heap_data received_def)
  next
    case 4
    have d0: "((\<lambda>s. f ((data ?hp)(3 \<mapsto> [1][0 := s]))) has_real_derivative
        (p + q) * exp 1 / (1 + exp 1) - p) (at 1)"
      unfolding f by (auto intro!: derivative_eq_intros simp: entry_def small_init_eq lse_pos lse_pos1)
    show ?thesis
      unfolding 4 g[OF a[unfolded 4]]
      using d0 by (simp add: small_heap_data received_def)
  qed
qed

lemma small_loss:
  assumes "tok = 0 \<or> tok = 1" "y = 0 \<or> y = 1"
  shows "loss_value (GPT_forward_loss (small_GPT d) (token tok) (token y))
     = ln (exp (entry d 4 0 * entry d 3 0) + exp (entry d 4 1 * entry d 3 0))
         - (if y = 0 then entry d 4 0 else entry d 4 1) * entry d 3 0"
  by (simp only: small_forward[OF assms] loss_value_def sum.case prod.case)


theorem accumulation_equivalence_witness:
  "backward_of (fst small_init) (snd small_init)
     (\<lambda>d. micro_loss 2 (loss_value (GPT_forward_loss (small_GPT d) (token 0) (token 1))))
     (small_backward (1 / 2) 0) \<and>
   backward_of (fst small_init) (snd small_init)
     (\<lambda>d. micro_loss 2 (loss_value (GPT_forward_loss (small_GPT d) (token 1) (token 0))))
     (small_backward 0 (1 / 2)) \<and>
   backward_of (fst small_init) (snd small_init)
     (\<lambda>d. loss_value (GPT_forward_loss (small_GPT d)
            (cat0 [token 0, token 1]) (cat0 [token 1, token 0])))
     (small_backward (1 / 2) (1 / 2)) \<and>
   list_all
     (\<lambda>a. grad (run_train (fst small_init)
                 [ZeroGrad, small_backward (1 / 2) 0, small_backward 0 (1 / 2)] (snd small_init)) a
            = grad (run_train (fst small_init)
                 [ZeroGrad, small_backward (1 / 2) (1 / 2)] (snd small_init)) a \<and>
          data (train_window (fst small_init) (\<lambda>a v g. map2 (\<lambda>x y. x - max_lr * y) v g)
                 [small_backward (1 / 2) 0, small_backward 0 (1 / 2)] (snd small_init)) a
            = data (train_window (fst small_init) (\<lambda>a v g. map2 (\<lambda>x y. x - max_lr * y) v g)
                 [small_backward (1 / 2) (1 / 2)] (snd small_init)) a)
     (parameters (fst small_init)) \<and>
   grad (run_train (fst small_init)
          [ZeroGrad, small_backward (1 / 2) 0, small_backward 0 (1 / 2)] (snd small_init))
     (ln_f_params (fst small_init) ! 1)
     = Some [exp 1 / (1 + exp 1) - 1 / 2]"
proof -
  let ?m = "fst small_init" and ?hp = "snd small_init"
  let ?bs = "[(token 0, token 1), (token 1, token 0)]"
  let ?bws = "[small_backward (1 / 2) 0, small_backward 0 (1 / 2)]"
  let ?bw = "small_backward (1 / 2) (1 / 2)"
  let ?upd = "\<lambda>(a::addr) v g. map2 (\<lambda>x y. x - max_lr * y) v g"
  let ?f1 = "\<lambda>d. micro_loss 2 (loss_value (GPT_forward_loss (small_GPT d) (token 0) (token 1)))"
  let ?f2 = "\<lambda>d. micro_loss 2 (loss_value (GPT_forward_loss (small_GPT d) (token 1) (token 0)))"
  let ?f = "\<lambda>d. loss_value (GPT_forward_loss (small_GPT d)
            (cat0 [token 0, token 1]) (cat0 [token 1, token 0]))"
  have k: "length ?bs = 2" "(1::nat) \<le> 2" by simp_all
  have ok: "\<forall>bq\<in>set ?bs. micro_batch_ok 1 1 bq"
    by (simp add: micro_batch_ok_def tensor_ok_def token_def)
  have pos: "(0::nat) < 1 * 1" by simp
  have run: "\<forall>d. \<forall>bq\<in>set ?bs. \<exists>r. GPT_forward_loss (small_GPT d) (fst bq) (snd bq) = Inr r"
    by (simp add: small_forward)
  have len: "length ?bws = 2" by simp
  have b1: "backward_of ?m ?hp ?f1 (small_backward (1 / 2) 0)"
    by (rule small_backward_of) (simp add: small_loss micro_loss_def)
  have b2: "backward_of ?m ?hp ?f2 (small_backward 0 (1 / 2))"
    by (rule small_backward_of) (simp add: small_loss micro_loss_def)
  have stacked: "?f d = micro_loss 2 (loss_value (GPT_forward_loss (small_GPT d) (token 0) (token 1)))
       + micro_loss 2 (loss_value (GPT_forward_loss (small_GPT d) (token 1) (token 0)))" for d
    using stacked_loss_value[OF k ok pos, of "small_GPT d"] run
    by (simp add: numeral_2_eq_2)
  have b: "backward_of ?m ?hp ?f ?bw"
    by (rule small_backward_of) (simp add: stacked small_loss micro_loss_def field_simps)
  have micro: "\<forall>j<2. backward_of ?m ?hp
      (\<lambda>d. micro_loss 2 (loss_value (GPT_forward_loss (small_GPT d) (fst (?bs ! j)) (snd (?bs ! j)))))
      (?bws ! j)"
    using b1 b2 by (simp add: less_Suc_eq numeral_2_eq_2)
  have big: "backward_of ?m ?hp
      (\<lambda>d. loss_value (GPT_forward_loss (small_GPT d) (cat0 (map fst ?bs)) (cat0 (map snd ?bs)))) ?bw"
    using b by simp
  have "\<forall>a\<in>set (parameters ?m).
      grad (run_train ?m (ZeroGrad # ?bws) ?hp) a = grad (run_train ?m [ZeroGrad, ?bw] ?hp) a \<and>
      data (train_window ?m ?upd ?bws ?hp) a = data (train_window ?m ?upd [?bw] ?hp) a"
    using accumulation_equivalence[OF k ok pos run len micro big, of ?upd] by blast
  then have eq: "list_all (\<lambda>a.
      grad (run_train ?m (ZeroGrad # ?bws) ?hp) a = grad (run_train ?m [ZeroGrad, ?bw] ?hp) a \<and>
      data (train_window ?m ?upd ?bws ?hp) a = data (train_window ?m ?upd [?bw] ?hp) a)
      (parameters ?m)"
    by (simp only: list_all_iff)
  have "2 + 2 * exp (1::real) = 2 * (1 + exp 1)" by simp
  then have half: "2 * exp 1 / (2 + 2 * exp (1::real)) = exp 1 / (1 + exp 1)"
    by (simp only: mult_divide_mult_cancel_left_if) simp
  have val: "grad (run_train ?m (ZeroGrad # ?bws) ?hp) (ln_f_params ?m ! 1)
      = Some [exp 1 / (1 + exp 1) - 1 / 2]"
    using half
    by (simp add: run_train_def small_backward_eq small_init_eq parameters_def accumulate_def vadd_def)
  show ?thesis
    by (intro conjI) (fact b1 b2 b eq val)+
qed

end
